theory Spec2Isabelle
  imports Complex_Main "HOL-Library.Word" "HOL-Library.Char_ord"
begin

unbundle bit_operations_syntax

section \<open>Data model of \<open>ext/oj/parsex.c\<close>\<close>

text \<open>
  Ruby values are opaque to the parser. The model keeps the constants the parser
  compares against, the error classes it passes on, and the handles the callbacks
  return for containers.
\<close>

datatype VALUE = Qnil | Qtrue | Qfalse | Qundef | RClass string | RHandle nat

definition oj_parse_error_class :: VALUE where
  "oj_parse_error_class = RClass ''Oj::ParseError''"

text \<open>The \<open>ValNext\<close> enumeration of open-container states.\<close>

datatype ValNext =
    NEXT_NONE
  | NEXT_ARRAY_NEW
  | NEXT_ARRAY_ELEMENT
  | NEXT_ARRAY_COMMA
  | NEXT_HASH_NEW
  | NEXT_HASH_KEY
  | NEXT_HASH_COLON
  | NEXT_HASH_VALUE
  | NEXT_HASH_COMMA

text \<open>
  A pending key is a C pointer: null, a pointer into the input buffer (the zero-copy
  span taken by \<open>read_str\<close>), or a heap copy made with \<open>strdup\<close> by
  \<open>read_escaped_str\<close>. The characters of the key are kept with the pointer.
\<close>

datatype KeyPtr = NullKey | InputKey string | HeapKey string

record Val =
  v_val  :: VALUE
  v_key  :: KeyPtr
  v_klen :: nat
  v_k1   :: char
  v_next :: ValNext

text \<open>
  Modelled from the spec: the error slot (\<open>struct _Err\<close> of \<open>err.h\<close>, a class and a
  message buffer), \<open>err_init\<close> and \<open>err_has\<close>. The slot is empty when its class is
  \<open>Qnil\<close>.
\<close>

record Err =
  clas :: VALUE
  msg  :: string

definition err_init :: Err where
  "err_init = \<lparr> clas = Qnil, msg = [] \<rparr>"

definition err_has :: "Err \<Rightarrow> bool" where
  "err_has e = (clas e \<noteq> Qnil)"

text \<open>
  Modelled from the spec: the Reader (\<open>reader.h\<close>), a cursor over the input.
  \<open>rd_tail\<close> is the offset of the next character to read, \<open>rd_str\<close> the mark set
  by \<open>reader_protect\<close> (the start of the current zero-copy span) and cleared by
  \<open>reader_reset\<close>. \<open>reader_get\<close> returns the next character and advances, or
  returns the sentinel NUL at end of input without advancing.
\<close>

record Reader =
  rd_input :: string
  rd_tail  :: nat
  rd_str   :: "nat option"

definition NUL :: char where
  "NUL = CHR 0x00"

definition get_char :: "Reader \<Rightarrow> char" where
  "get_char r = (if rd_tail r < length (rd_input r) then rd_input r ! rd_tail r else NUL)"

definition advance :: "Reader \<Rightarrow> Reader" where
  "advance r = (if rd_tail r < length (rd_input r) then r\<lparr> rd_tail := rd_tail r + 1 \<rparr> else r)"

definition reader_get :: "Reader \<Rightarrow> char \<times> Reader" where
  "reader_get r = (get_char r, advance r)"

definition reader_protect :: "Reader \<Rightarrow> Reader" where
  "reader_protect r = r\<lparr> rd_str := Some (rd_tail r) \<rparr>"

definition reader_reset :: "Reader \<Rightarrow> Reader" where
  "reader_reset r = r\<lparr> rd_str := None \<rparr>"

text \<open>The offset \<open>rd.str\<close> points at; a cleared mark is the null pointer.\<close>

definition str_off :: "Reader \<Rightarrow> nat" where
  "str_off r = (case rd_str r of None \<Rightarrow> 0 | Some s \<Rightarrow> s)"

text \<open>The characters of the span \<open>rd.str .. rd.tail\<close> and its first character.\<close>

definition rd_span :: "Reader \<Rightarrow> string" where
  "rd_span r = take (rd_tail r - str_off r) (drop (str_off r) (rd_input r))"

definition str_first :: "Reader \<Rightarrow> char" where
  "str_first r = (if str_off r < length (rd_input r) then rd_input r ! str_off r else NUL)"

text \<open>\<open>reader_expect\<close>: 0 (here \<open>True\<close>) when the next characters are the literal.\<close>

fun reader_expect :: "Reader \<Rightarrow> string \<Rightarrow> bool \<times> Reader" where
  "reader_expect r [] = (True, r)"
| "reader_expect r (s # ss) =
     (if get_char r \<noteq> s then (False, advance r) else reader_expect (advance r) ss)"

definition is_white :: "char \<Rightarrow> bool" where
  "is_white c = (c = CHR '' '' \<or> c = CHR 0x09 \<or> c = CHR 0x0C \<or> c = CHR 0x0A \<or> c = CHR 0x0D)"

function reader_next_non_white :: "Reader \<Rightarrow> char \<times> Reader" where
  "reader_next_non_white r =
     (let c = get_char r; r1 = advance r in
      if c = NUL then (NUL, r1)
      else if is_white c then reader_next_non_white r1
      else (c, r1))"
  by pat_completeness auto
termination
  by (relation "measure (\<lambda>r. length (rd_input r) - rd_tail r)")
     (auto simp: get_char_def advance_def NUL_def split: if_splits)

declare reader_next_non_white.simps [simp del]

text \<open>
  The number representation handed to the builder (\<open>struct _NumInfo\<close>). The three
  accumulators are 64-bit, the exponent a C \<open>long\<close>; both wrap. The counters
  \<open>dec_cnt\<close> and \<open>big\<close> are C \<open>int\<close>s, modelled unbounded: they count digits of the
  literal, so the model is exact for literals shorter than \<open>2^31\<close> digits.
  \<open>ni_str\<close> is the offset of the raw span in the input, \<open>ni_len\<close> its length.
\<close>

record NumInfo =
  ni_i        :: "64 word"
  ni_num      :: "64 word"
  ni_div      :: "64 word"
  ni_str      :: nat
  ni_len      :: nat
  ni_exp      :: "64 word"
  ni_dec_cnt  :: int
  ni_big      :: int
  ni_infinity :: bool
  ni_nan      :: bool
  ni_neg      :: bool
  ni_no_big   :: bool

datatype BigLoad = BigDec | FloatDec | AutoDec

text \<open>
  The builder is a table of function pointers supplied by the caller. The model
  records each call, in order; the callbacks are taken not to touch the reader, the
  stack or the error slot. \<open>start_array\<close> and \<open>start_hash\<close> return a fresh handle.
\<close>

datatype Event =
    StartArray | EndArray | StartHash | EndHash
  | AddValue VALUE | AddNum NumInfo | AddCstr string
  | ArrayAppendValue VALUE | ArrayAppendNum NumInfo | ArrayAppendCstr string
  | HashSetValue KeyPtr nat VALUE | HashSetNum KeyPtr nat NumInfo | HashSetCstr KeyPtr nat string

text \<open>
  The parse state \<open>struct _ParseInfo\<close>: reader, value stack (top first), error slot
  and the one option the parser reads. Two histories are kept beside the C fields:
  \<open>pi_events\<close>, the builder calls made so far, and \<open>pi_err_calls\<close>, the calls of
  \<open>oj_set_error_atx\<close> made so far with the class, format string and format
  arguments of each. Neither is read by the parser.
\<close>

record ParseInfo =
  pi_rd          :: Reader
  pi_stack       :: "Val list"
  pi_err         :: Err
  pi_bigdec_load :: BigLoad
  pi_events      :: "Event list"
  pi_err_calls   :: "(VALUE \<times> string \<times> ValNext list) list"

section \<open>Error slot and value stack\<close>

text \<open>
  \<open>oj_set_error_atx\<close> formats the message into a local buffer and stores the class
  only; the call that would store the message is commented out in the source.
\<close>

definition oj_set_error_atx :: "ParseInfo \<Rightarrow> VALUE \<Rightarrow> string \<Rightarrow> ValNext list \<Rightarrow> ParseInfo" where
  "oj_set_error_atx pinfo err_clas format args =
     pinfo\<lparr> pi_err := (pi_err pinfo)\<lparr> clas := err_clas \<rparr>,
         pi_err_calls := pi_err_calls pinfo @ [(err_clas, format, args)] \<rparr>"

text \<open>Modelled from the spec: the NestingStack operations of \<open>val_stack.h\<close>.\<close>

definition stack_peek :: "Val list \<Rightarrow> Val option" where
  "stack_peek s = (case s of [] \<Rightarrow> None | v # _ \<Rightarrow> Some v)"

definition stack_pop :: "Val list \<Rightarrow> Val option \<times> Val list" where
  "stack_pop s = (case s of [] \<Rightarrow> (None, []) | v # vs \<Rightarrow> (Some v, vs))"

definition stack_push :: "Val list \<Rightarrow> VALUE \<Rightarrow> ValNext \<Rightarrow> Val list" where
  "stack_push s v n = \<lparr> v_val = v, v_key = NullKey, v_klen = 0, v_k1 = NUL, v_next = n \<rparr> # s"

definition stack_empty :: "Val list \<Rightarrow> bool" where
  "stack_empty s = (s = [])"

text \<open>Assignment through the \<open>parent\<close> pointer: an update of the top frame.\<close>

definition set_top :: "ParseInfo \<Rightarrow> Val \<Rightarrow> ParseInfo" where
  "set_top pinfo v = pinfo\<lparr> pi_stack := (case pi_stack pinfo of [] \<Rightarrow> [] | _ # vs \<Rightarrow> v # vs) \<rparr>"

definition emit :: "ParseInfo \<Rightarrow> Event \<Rightarrow> ParseInfo" where
  "emit pinfo e = pinfo\<lparr> pi_events := pi_events pinfo @ [e] \<rparr>"

text \<open>
  Modelled from the spec: \<open>reader_ptr_in_pro\<close>, whether a key pointer lies in the
  buffered input; a key that does not is an owned copy and is released.
\<close>

definition reader_ptr_in_pro :: "Reader \<Rightarrow> KeyPtr \<Rightarrow> bool" where
  "reader_ptr_in_pro r k = (case k of InputKey _ \<Rightarrow> True | _ \<Rightarrow> False)"

definition release_key :: "Reader \<Rightarrow> Val \<Rightarrow> Val" where
  "release_key r parent =
     (if v_key parent \<noteq> NullKey \<and> \<not> reader_ptr_in_pro r (v_key parent)
      then parent\<lparr> v_key := NullKey \<rparr> else parent)"

section \<open>Comments\<close>

function block_comment_loop :: "Reader \<Rightarrow> bool \<times> Reader" where
  "block_comment_loop r =
     (let c = get_char r; r1 = advance r in
      if c = NUL then (False, r1)
      else if c = CHR ''*'' then
        (let c2 = get_char r1; r2 = advance r1 in
         if c2 = CHR ''/'' then (True, r2) else block_comment_loop r2)
      else block_comment_loop r1)"
  by pat_completeness auto
termination
  by (relation "measure (\<lambda>r. length (rd_input r) - rd_tail r)")
     (auto simp: get_char_def advance_def NUL_def split: if_splits)

declare block_comment_loop.simps [simp del]

function line_comment_loop :: "Reader \<Rightarrow> bool \<times> Reader" where
  "line_comment_loop r =
     (let c = get_char r; r1 = advance r in
      if c = NUL then (False, r1)
      else if c = CHR 0x0A \<or> c = CHR 0x0D \<or> c = CHR 0x0C \<or> c = NUL then (True, r1)
      else line_comment_loop r1)"
  by pat_completeness auto
termination
  by (relation "measure (\<lambda>r. length (rd_input r) - rd_tail r)")
     (auto simp: get_char_def advance_def NUL_def split: if_splits)

declare line_comment_loop.simps [simp del]

text \<open>
  \<open>skip_comment\<close>. Each loop yields \<open>True\<close> where the source returns from inside
  the loop and \<open>False\<close> where the loop condition ends it with \<open>c = NUL\<close>; control
  then reaches the final test of \<open>c\<close>. In the third branch \<open>c\<close> is the character
  read first.
\<close>

definition skip_comment :: "ParseInfo \<Rightarrow> ParseInfo" where
  "skip_comment pinfo =
     (let c = get_char (pi_rd pinfo); r1 = advance (pi_rd pinfo) in
      if c = CHR ''*'' then
        (case block_comment_loop r1 of
           (True, r2) \<Rightarrow> pinfo\<lparr> pi_rd := r2 \<rparr>
         | (False, r2) \<Rightarrow>
             oj_set_error_atx (pinfo\<lparr> pi_rd := r2 \<rparr>) oj_parse_error_class ''comment not terminated'' [])
      else if c = CHR ''/'' then
        (case line_comment_loop r1 of
           (True, r2) \<Rightarrow> pinfo\<lparr> pi_rd := r2 \<rparr>
         | (False, r2) \<Rightarrow>
             oj_set_error_atx (pinfo\<lparr> pi_rd := r2 \<rparr>) oj_parse_error_class ''comment not terminated'' [])
      else
        (let pi1 = oj_set_error_atx (pinfo\<lparr> pi_rd := r1 \<rparr>) oj_parse_error_class ''invalid comment format'' [] in
         if c = NUL
         then oj_set_error_atx pi1 oj_parse_error_class ''comment not terminated'' []
         else pi1))"

section \<open>Delivering values\<close>

definition add_value :: "ParseInfo \<Rightarrow> VALUE \<Rightarrow> ParseInfo" where
  "add_value pinfo rval =
     (case stack_peek (pi_stack pinfo) of
        None \<Rightarrow> emit pinfo (AddValue rval)
      | Some parent \<Rightarrow>
          (if v_next parent = NEXT_ARRAY_NEW \<or> v_next parent = NEXT_ARRAY_ELEMENT then
             set_top (emit pinfo (ArrayAppendValue rval)) (parent\<lparr> v_next := NEXT_ARRAY_COMMA \<rparr>)
           else if v_next parent = NEXT_HASH_VALUE then
             set_top (emit pinfo (HashSetValue (v_key parent) (v_klen parent) rval))
               ((release_key (pi_rd pinfo) parent)\<lparr> v_next := NEXT_HASH_COMMA \<rparr>)
           else oj_set_error_atx pinfo oj_parse_error_class ''expected %s'' [v_next parent]))"

definition add_num_value :: "ParseInfo \<Rightarrow> NumInfo \<Rightarrow> ParseInfo" where
  "add_num_value pinfo ni =
     (case stack_peek (pi_stack pinfo) of
        None \<Rightarrow> emit pinfo (AddNum ni)
      | Some parent \<Rightarrow>
          (if v_next parent = NEXT_ARRAY_NEW \<or> v_next parent = NEXT_ARRAY_ELEMENT then
             set_top (emit pinfo (ArrayAppendNum ni)) (parent\<lparr> v_next := NEXT_ARRAY_COMMA \<rparr>)
           else if v_next parent = NEXT_HASH_VALUE then
             set_top (emit pinfo (HashSetNum (v_key parent) (v_klen parent) ni))
               ((release_key (pi_rd pinfo) parent)\<lparr> v_next := NEXT_HASH_COMMA \<rparr>)
           else oj_set_error_atx pinfo oj_parse_error_class ''expected %s'' [v_next parent]))"

text \<open>
  The tail shared by \<open>read_str\<close> and \<open>read_escaped_str\<close>: deliver the string
  \<open>s\<close>; as a key it is stored as the pointer \<open>k\<close>.
\<close>

definition add_cstr :: "ParseInfo \<Rightarrow> Val option \<Rightarrow> string \<Rightarrow> KeyPtr \<Rightarrow> ParseInfo" where
  "add_cstr pinfo parent0 s k =
     (case parent0 of
        None \<Rightarrow> emit pinfo (AddCstr s)
      | Some parent \<Rightarrow>
          (if v_next parent = NEXT_ARRAY_NEW \<or> v_next parent = NEXT_ARRAY_ELEMENT then
             set_top (emit pinfo (ArrayAppendCstr s)) (parent\<lparr> v_next := NEXT_ARRAY_COMMA \<rparr>)
           else if v_next parent = NEXT_HASH_NEW \<or> v_next parent = NEXT_HASH_KEY then
             set_top pinfo (parent\<lparr> v_key := k, v_klen := length s, v_k1 := str_first (pi_rd pinfo),
                                 v_next := NEXT_HASH_COLON \<rparr>)
           else if v_next parent = NEXT_HASH_VALUE then
             set_top (emit pinfo (HashSetCstr (v_key parent) (v_klen parent) s))
               ((release_key (pi_rd pinfo) parent)\<lparr> v_next := NEXT_HASH_COMMA \<rparr>)
           else oj_set_error_atx pinfo oj_parse_error_class ''expected %s, not a string'' [v_next parent]))"

section \<open>Fixed literals\<close>

definition read_true :: "ParseInfo \<Rightarrow> ParseInfo" where
  "read_true pinfo =
     (case reader_expect (pi_rd pinfo) ''rue'' of
        (True, r) \<Rightarrow> add_value (pinfo\<lparr> pi_rd := r \<rparr>) Qtrue
      | (False, r) \<Rightarrow> oj_set_error_atx (pinfo\<lparr> pi_rd := r \<rparr>) oj_parse_error_class ''expected true'' [])"

definition read_false :: "ParseInfo \<Rightarrow> ParseInfo" where
  "read_false pinfo =
     (case reader_expect (pi_rd pinfo) ''alse'' of
        (True, r) \<Rightarrow> add_value (pinfo\<lparr> pi_rd := r \<rparr>) Qfalse
      | (False, r) \<Rightarrow> oj_set_error_atx (pinfo\<lparr> pi_rd := r \<rparr>) oj_parse_error_class ''expected false'' [])"

section \<open>Strings\<close>

definition pi_get :: "ParseInfo \<Rightarrow> char \<times> ParseInfo" where
  "pi_get pinfo = (get_char (pi_rd pinfo), pinfo\<lparr> pi_rd := advance (pi_rd pinfo) \<rparr>)"

text \<open>\<open>read_hex\<close>: four hexadecimal digits into a \<open>uint32_t\<close>; 0 with an error otherwise.\<close>

fun read_hex_loop :: "nat \<Rightarrow> 32 word \<Rightarrow> ParseInfo \<Rightarrow> 32 word \<times> ParseInfo" where
  "read_hex_loop 0 b pinfo = (b, pinfo)"
| "read_hex_loop (Suc n) b pinfo =
     (let c = get_char (pi_rd pinfo);
          pi1 = pinfo\<lparr> pi_rd := advance (pi_rd pinfo) \<rparr>;
          b1 = push_bit 4 b in
      if CHR ''0'' \<le> c \<and> c \<le> CHR ''9'' then
        read_hex_loop n (b1 + (of_char c - of_char (CHR ''0''))) pi1
      else if CHR ''A'' \<le> c \<and> c \<le> CHR ''F'' then
        read_hex_loop n (b1 + (of_char c - of_char (CHR ''A'') + 10)) pi1
      else if CHR ''a'' \<le> c \<and> c \<le> CHR ''f'' then
        read_hex_loop n (b1 + (of_char c - of_char (CHR ''a'') + 10)) pi1
      else (0, oj_set_error_atx pi1 oj_parse_error_class ''invalid hex character'' []))"

definition read_hex :: "ParseInfo \<Rightarrow> 32 word \<times> ParseInfo" where
  "read_hex pinfo = read_hex_loop 4 0 pinfo"

text \<open>\<open>buf_append\<close> takes a \<open>char\<close>: the low eight bits of the value.\<close>

definition byte :: "32 word \<Rightarrow> char" where
  "byte w = char_of (unat w)"

text \<open>
  \<open>unicode_to_chars\<close>: the bytes appended to the buffer, or \<open>None\<close> where the
  source records the error "invalid Unicode character".
\<close>

definition unicode_to_chars :: "32 word \<Rightarrow> string option" where
  "unicode_to_chars code =
     (if code \<le> 0x0000007F then Some [byte code]
      else if code \<le> 0x000007FF then
        Some [byte (0xC0 OR drop_bit 6 code), byte (0x80 OR (0x3F AND code))]
      else if code \<le> 0x0000FFFF then
        Some [byte (0xE0 OR drop_bit 12 code), byte (0x80 OR (drop_bit 6 code AND 0x3F)),
              byte (0x80 OR (0x3F AND code))]
      else if code \<le> 0x001FFFFF then
        Some [byte (0xF0 OR drop_bit 18 code), byte (0x80 OR (drop_bit 12 code AND 0x3F)),
              byte (0x80 OR (drop_bit 6 code AND 0x3F)), byte (0x80 OR (0x3F AND code))]
      else if code \<le> 0x03FFFFFF then
        Some [byte (0xF8 OR drop_bit 24 code), byte (0x80 OR (drop_bit 18 code AND 0x3F)),
              byte (0x80 OR (drop_bit 12 code AND 0x3F)), byte (0x80 OR (drop_bit 6 code AND 0x3F)),
              byte (0x80 OR (0x3F AND code))]
      else if code \<le> 0x7FFFFFFF then
        Some [byte (0xFC OR drop_bit 30 code), byte (0x80 OR (drop_bit 24 code AND 0x3F)),
              byte (0x80 OR (drop_bit 18 code AND 0x3F)), byte (0x80 OR (drop_bit 12 code AND 0x3F)),
              byte (0x80 OR (drop_bit 6 code AND 0x3F)), byte (0x80 OR (0x3F AND code))]
      else None)"

text \<open>
  The \<open>case 'u'\<close> branch of \<open>read_escaped_str\<close>, entered after the \<open>u\<close>: the code
  point read (two escapes where the first code unit lies in \<open>D800..DFFF\<close>), or
  \<open>None\<close> where the branch returns with an error.
\<close>

definition read_code :: "ParseInfo \<Rightarrow> 32 word option \<times> ParseInfo" where
  "read_code pinfo =
     (case read_hex pinfo of (code, pi1) \<Rightarrow>
        if code = 0 \<and> err_has (pi_err pi1) then (None, pi1)
        else if 0x0000D800 \<le> code \<and> code \<le> 0x0000DFFF then
          (let c1 = (code - 0x0000D800) AND 0x000003FF in
           case pi_get pi1 of (c, pi2) \<Rightarrow>
           case pi_get pi2 of (ch2, pi3) \<Rightarrow>
             if \<not> (c = CHR 0x5C \<and> ch2 = CHR ''u'') then
               (None, oj_set_error_atx pi3 oj_parse_error_class ''invalid escaped character'' [])
             else
               (case read_hex pi3 of (c2, pi4) \<Rightarrow>
                  if c2 = 0 \<and> err_has (pi_err pi4) then (None, pi4)
                  else
                    (let c2' = (c2 - 0x0000DC00) AND 0x000003FF in
                     (Some ((push_bit 10 c1 OR c2') + 0x00010000), pi4))))
        else (Some code, pi1))"

definition read_unicode :: "ParseInfo \<Rightarrow> string \<Rightarrow> string option \<times> ParseInfo" where
  "read_unicode pinfo buf =
     (case read_code pinfo of
        (None, pi1) \<Rightarrow> (None, pi1)
      | (Some code, pi1) \<Rightarrow>
          (case unicode_to_chars code of
             None \<Rightarrow> (None, oj_set_error_atx pi1 oj_parse_error_class ''invalid Unicode character'' [])
           | Some bs \<Rightarrow> (Some (buf @ bs), pi1)))"

text \<open>What is left of the input: the measure of every loop over the reader.\<close>

definition rd_rem :: "Reader \<Rightarrow> nat" where
  "rd_rem r = length (rd_input r) - rd_tail r"

definition pi_rem :: "ParseInfo \<Rightarrow> nat" where
  "pi_rem pinfo = rd_rem (pi_rd pinfo)"

definition pi_adv :: "ParseInfo \<Rightarrow> ParseInfo" where
  "pi_adv pinfo = pinfo\<lparr> pi_rd := advance (pi_rd pinfo) \<rparr>"

lemma rd_rem_advance: "rd_rem (advance r) \<le> rd_rem r"
  by (auto simp: rd_rem_def advance_def)

lemma rd_rem_advance_less: "get_char r \<noteq> NUL \<Longrightarrow> rd_rem (advance r) < rd_rem r"
  by (auto simp: rd_rem_def advance_def get_char_def split: if_splits)

lemma pi_rem_set_error [simp]: "pi_rem (oj_set_error_atx pinfo c f a) = pi_rem pinfo"
  by (simp add: pi_rem_def oj_set_error_atx_def)

lemma pi_rem_pi_adv: "pi_rem (pi_adv pinfo) \<le> pi_rem pinfo"
  by (simp add: pi_rem_def pi_adv_def rd_rem_advance)

lemma pi_rem_pi_adv_less: "get_char (pi_rd pinfo) \<noteq> NUL \<Longrightarrow> pi_rem (pi_adv pinfo) < pi_rem pinfo"
  by (simp add: pi_rem_def pi_adv_def rd_rem_advance_less)

lemma pi_rem_read_hex_loop: "pi_rem (snd (read_hex_loop n b pinfo)) \<le> pi_rem pinfo"
proof (induction n arbitrary: b pinfo)
  case 0
  show ?case by simp
next
  case (Suc n)
  have adv: "pi_rem (pinfo\<lparr> pi_rd := advance (pi_rd pinfo) \<rparr>) \<le> pi_rem pinfo"
    using pi_rem_pi_adv [of pinfo] by (simp add: pi_adv_def)
  show ?case
    using adv Suc.IH [of _ "pinfo\<lparr> pi_rd := advance (pi_rd pinfo) \<rparr>"]
    by (auto simp: Let_def intro: order_trans)
qed

lemma pi_rem_read_code: "pi_rem (snd (read_code pinfo)) \<le> pi_rem pinfo"
proof -
  have hex: "\<And>p. pi_rem (snd (read_hex p)) \<le> pi_rem p"
    by (simp add: read_hex_def pi_rem_read_hex_loop)
  have get: "\<And>p. pi_rem (snd (pi_get p)) \<le> pi_rem p"
    using pi_rem_pi_adv by (simp add: pi_get_def pi_adv_def)
  obtain code p1 where h1: "read_hex pinfo = (code, p1)" by (cases "read_hex pinfo")
  obtain c p2 where h2: "pi_get p1 = (c, p2)" by (cases "pi_get p1")
  obtain ch2 p3 where h3: "pi_get p2 = (ch2, p3)" by (cases "pi_get p2")
  obtain c2 p4 where h4: "read_hex p3 = (c2, p4)" by (cases "read_hex p3")
  have "pi_rem p1 \<le> pi_rem pinfo" using hex [of pinfo] h1 by simp
  moreover have "pi_rem p2 \<le> pi_rem p1" using get [of p1] h2 by simp
  moreover have "pi_rem p3 \<le> pi_rem p2" using get [of p2] h3 by simp
  moreover have "pi_rem p4 \<le> pi_rem p3" using hex [of p3] h4 by simp
  ultimately show ?thesis
    by (simp add: read_code_def h1 h2 h3 h4 Let_def)
qed

lemma pi_rem_read_unicode: "pi_rem (snd (read_unicode pinfo buf)) \<le> pi_rem pinfo"
  using pi_rem_read_code [of pinfo]
  by (auto simp: read_unicode_def split: prod.splits option.splits)

text \<open>
  The switch on the character after a backslash in \<open>read_escaped_str\<close>: the buffer
  with the escape appended, or \<open>None\<close> where the source cleans the buffer up and
  returns with an error.
\<close>

definition read_escape :: "ParseInfo \<Rightarrow> string \<Rightarrow> string option \<times> ParseInfo" where
  "read_escape pinfo buf =
     (let c = get_char (pi_rd pinfo); pi1 = pi_adv pinfo in
      if c = CHR ''n'' then (Some (buf @ [CHR 0x0A]), pi1)
      else if c = CHR ''r'' then (Some (buf @ [CHR 0x0D]), pi1)
      else if c = CHR ''t'' then (Some (buf @ [CHR 0x09]), pi1)
      else if c = CHR ''f'' then (Some (buf @ [CHR 0x0C]), pi1)
      else if c = CHR ''b'' then (Some (buf @ [CHR 0x08]), pi1)
      else if c = CHR 0x22 then (Some (buf @ [CHR 0x22]), pi1)
      else if c = CHR ''/'' then (Some (buf @ [CHR ''/'']), pi1)
      else if c = CHR 0x5C then (Some (buf @ [CHR 0x5C]), pi1)
      else if c = CHR ''u'' then read_unicode pi1 buf
      else (None, oj_set_error_atx pi1 oj_parse_error_class ''invalid escaped character'' []))"

lemma pi_rem_read_escape: "pi_rem (snd (read_escape pinfo buf)) \<le> pi_rem pinfo"
  using pi_rem_pi_adv [of pinfo] pi_rem_read_unicode [of "pi_adv pinfo" buf]
  by (simp add: read_escape_def Let_def)

text \<open>
  The loop of \<open>read_escaped_str\<close>: the decoded buffer at the closing quote, or
  \<open>None\<close> where the source returns with an error.
\<close>

function escaped_loop :: "ParseInfo \<Rightarrow> string \<Rightarrow> string option \<times> ParseInfo" where
  "escaped_loop pinfo buf =
     (let c = get_char (pi_rd pinfo); pi1 = pi_adv pinfo in
      if c = CHR 0x22 then (Some buf, pi1)
      else if c = NUL then
        (None, oj_set_error_atx pi1 oj_parse_error_class ''quoted string not terminated'' [])
      else if c = CHR 0x5C then
        (case read_escape pi1 buf of
           (None, pi2) \<Rightarrow> (None, pi2)
         | (Some buf', pi2) \<Rightarrow> escaped_loop pi2 buf')
      else escaped_loop pi1 (buf @ [c]))"
  by pat_completeness auto
termination
proof (relation "measure (\<lambda>(pinfo, buf). pi_rem pinfo)", goal_cases)
  case 1
  show ?case by simp
next
  case (2 pinfo buf c pi1 x y z)
  have nz: "get_char (pi_rd pinfo) \<noteq> NUL" using 2 by simp
  have "snd (read_escape pi1 buf) = y" using 2 by (metis snd_conv)
  then have "pi_rem y \<le> pi_rem pi1" using pi_rem_read_escape [of pi1 buf] by simp
  moreover have "pi_rem pi1 < pi_rem pinfo"
    using pi_rem_pi_adv_less [OF nz] \<open>pi1 = pi_adv pinfo\<close> by simp
  ultimately show ?case by simp
next
  case (3 pinfo buf c pi1)
  then show ?case using pi_rem_pi_adv_less [of pinfo] by simp
qed

declare escaped_loop.simps [simp del]

text \<open>\<open>read_escaped_str\<close>: the buffer starts with the span read so far.\<close>

definition read_escaped_str :: "ParseInfo \<Rightarrow> ParseInfo" where
  "read_escaped_str pinfo =
     (let parent = stack_peek (pi_stack pinfo);
          buf0 = (if str_off (pi_rd pinfo) < rd_tail (pi_rd pinfo) then rd_span (pi_rd pinfo) else []) in
      case escaped_loop pinfo buf0 of
        (None, pi1) \<Rightarrow> pi1
      | (Some buf, pi1) \<Rightarrow> add_cstr pi1 parent buf (HeapKey buf))"

function read_str_loop :: "Reader \<Rightarrow> char \<times> Reader" where
  "read_str_loop r =
     (let c = get_char r; r1 = advance r in
      if c = CHR 0x22 then (c, r1)
      else if c = NUL then (c, r1)
      else if c = CHR 0x5C then (c, r1)
      else read_str_loop r1)"
  by pat_completeness auto
termination
  by (relation "measure rd_rem") (auto simp: rd_rem_advance_less)

declare read_str_loop.simps [simp del]

definition pi_reset :: "ParseInfo \<Rightarrow> ParseInfo" where
  "pi_reset pinfo = pinfo\<lparr> pi_rd := reader_reset (pi_rd pinfo) \<rparr>"

definition read_str :: "ParseInfo \<Rightarrow> ParseInfo" where
  "read_str pinfo =
     (let parent = stack_peek (pi_stack pinfo) in
      case read_str_loop (reader_protect (pi_rd pinfo)) of (c, r) \<Rightarrow>
        (let pi1 = pinfo\<lparr> pi_rd := r \<rparr> in
         if c = NUL then
           oj_set_error_atx pi1 oj_parse_error_class ''quoted string not terminated'' []
         else if c = CHR 0x5C then pi_reset (read_escaped_str pi1)
         else pi_reset (add_cstr pi1 parent (rd_span r) (InputKey (rd_span r)))))"

section \<open>Numbers\<close>

definition LONG_MAX :: int where
  "LONG_MAX = 9223372036854775807"

definition EXP_MAX :: int where
  "EXP_MAX = 1023"

definition DEC_MAX :: int where
  "DEC_MAX = 14"

definition is_digit :: "char \<Rightarrow> bool" where
  "is_digit c = (CHR ''0'' \<le> c \<and> c \<le> CHR ''9'')"

text \<open>\<open>c - '0'\<close> for a digit character.\<close>

definition digit_of :: "char \<Rightarrow> nat" where
  "digit_of c = of_char c - of_char (CHR ''0'')"

text \<open>
  The bodies of the three digit loops of \<open>read_num\<close>, for the digit character
  \<open>c\<close>: the number and \<open>zero_cnt\<close> after one turn.
\<close>

definition int_digit :: "char \<Rightarrow> NumInfo \<Rightarrow> int \<Rightarrow> NumInfo \<times> int" where
  "int_digit c ni zero_cnt =
     (let ni1 = ni\<lparr> ni_dec_cnt := ni_dec_cnt ni + 1 \<rparr> in
      if ni_big ni1 \<noteq> 0 then (ni1\<lparr> ni_big := ni_big ni1 + 1 \<rparr>, zero_cnt)
      else
        (let d = digit_of c;
             zc = (if d = 0 then zero_cnt + 1 else 0);
             ni2 = ni1\<lparr> ni_i := ni_i ni1 * 10 + of_nat d \<rparr>
         in (if LONG_MAX \<le> sint (ni_i ni2) \<or> DEC_MAX < ni_dec_cnt ni2 - zc
             then ni2\<lparr> ni_big := 1 \<rparr> else ni2, zc)))"

definition frac_digit :: "char \<Rightarrow> NumInfo \<Rightarrow> int \<Rightarrow> NumInfo \<times> int" where
  "frac_digit c ni zero_cnt =
     (let d = digit_of c;
          zc = (if d = 0 then zero_cnt + 1 else 0);
          ni1 = ni\<lparr> ni_dec_cnt := ni_dec_cnt ni + 1,
                    ni_num := ni_num ni * 10 + of_nat d,
                    ni_div := ni_div ni * 10 \<rparr>
      in (if LONG_MAX \<le> sint (ni_div ni1) \<or> DEC_MAX < ni_dec_cnt ni1 - zc
          then ni1\<lparr> ni_big := 1 \<rparr> else ni1, zc))"

definition exp_digit :: "char \<Rightarrow> NumInfo \<Rightarrow> NumInfo" where
  "exp_digit c ni =
     (let ni1 = ni\<lparr> ni_exp := ni_exp ni * 10 + of_nat (digit_of c) \<rparr>
      in if EXP_MAX \<le> sint (ni_exp ni1) then ni1\<lparr> ni_big := 1 \<rparr> else ni1)"

text \<open>
  The three loops. Each takes the character in hand, the reader, the number so
  far and \<open>zero_cnt\<close>, and returns them at the first character that is not a digit.
\<close>

function int_loop :: "char \<Rightarrow> Reader \<Rightarrow> NumInfo \<Rightarrow> int \<Rightarrow> char \<times> Reader \<times> NumInfo \<times> int" where
  "int_loop c r ni zero_cnt =
     (if is_digit c then
        int_loop (get_char r) (advance r) (fst (int_digit c ni zero_cnt)) (snd (int_digit c ni zero_cnt))
      else (c, r, ni, zero_cnt))"
  by pat_completeness auto
termination
  by (relation "measure (\<lambda>(c, r, ni, z). rd_rem r + (if is_digit c then 1 else 0))")
     (auto simp: rd_rem_def advance_def get_char_def is_digit_def NUL_def split: if_splits)

declare int_loop.simps [simp del]

function frac_loop :: "char \<Rightarrow> Reader \<Rightarrow> NumInfo \<Rightarrow> int \<Rightarrow> char \<times> Reader \<times> NumInfo \<times> int" where
  "frac_loop c r ni zero_cnt =
     (if is_digit c then
        frac_loop (get_char r) (advance r) (fst (frac_digit c ni zero_cnt))
          (snd (frac_digit c ni zero_cnt))
      else (c, r, ni, zero_cnt))"
  by pat_completeness auto
termination
  by (relation "measure (\<lambda>(c, r, ni, z). rd_rem r + (if is_digit c then 1 else 0))")
     (auto simp: rd_rem_def advance_def get_char_def is_digit_def NUL_def split: if_splits)

declare frac_loop.simps [simp del]

function exp_loop :: "char \<Rightarrow> Reader \<Rightarrow> NumInfo \<Rightarrow> char \<times> Reader \<times> NumInfo" where
  "exp_loop c r ni =
     (if is_digit c then exp_loop (get_char r) (advance r) (exp_digit c ni)
      else (c, r, ni))"
  by pat_completeness auto
termination
  by (relation "measure (\<lambda>(c, r, ni). rd_rem r + (if is_digit c then 1 else 0))")
     (auto simp: rd_rem_def advance_def get_char_def is_digit_def NUL_def split: if_splits)

declare exp_loop.simps [simp del]

text \<open>The initial \<open>NumInfo\<close> of \<open>read_num\<close> and of the \<open>n\<close> branch of the dispatcher.\<close>

definition ni_init :: "ParseInfo \<Rightarrow> NumInfo" where
  "ni_init pinfo =
     \<lparr> ni_i = 0, ni_num = 0, ni_div = 1, ni_str = str_off (pi_rd pinfo), ni_len = 0, ni_exp = 0,
       ni_dec_cnt = 0, ni_big = 0, ni_infinity = False, ni_nan = False, ni_neg = False,
       ni_no_big = (pi_bigdec_load pinfo = FloatDec) \<rparr>"

text \<open>
  The decimal branch of \<open>read_num\<close>: integer digits, an optional fraction, an
  optional exponent, then the span length. \<open>zero_cnt\<close> starts at 0.
\<close>

definition read_exponent :: "Reader \<Rightarrow> NumInfo \<Rightarrow> Reader \<times> NumInfo" where
  "read_exponent r ni =
     (let c = get_char r; r1 = advance r;
          eneg = (c = CHR ''-'');
          c1 = (if c = CHR ''-'' \<or> c = CHR ''+'' then get_char r1 else c);
          r2 = (if c = CHR ''-'' \<or> c = CHR ''+'' then advance r1 else r1) in
      case exp_loop c1 r2 ni of (c2, r3, ni1) \<Rightarrow>
        (r3, if eneg then ni1\<lparr> ni_exp := - ni_exp ni1 \<rparr> else ni1))"

definition read_decimal :: "char \<Rightarrow> Reader \<Rightarrow> NumInfo \<Rightarrow> Reader \<times> NumInfo" where
  "read_decimal c r ni =
     (case int_loop c r ni 0 of (c1, r1, ni1, zc1) \<Rightarrow>
      case (if c1 = CHR ''.'' then frac_loop (get_char r1) (advance r1) ni1 zc1
            else (c1, r1, ni1, zc1)) of (c2, r2, ni2, zc2) \<Rightarrow>
      case (if c2 = CHR ''e'' \<or> c2 = CHR ''E'' then read_exponent r2 ni2 else (r2, ni2)) of
        (r3, ni3) \<Rightarrow>
          (r3, ni3\<lparr> ni_dec_cnt := ni_dec_cnt ni3 - zc2, ni_len := rd_tail r3 - str_off r3 \<rparr>))"

definition finish_num :: "ParseInfo \<Rightarrow> NumInfo \<Rightarrow> ParseInfo" where
  "finish_num pinfo ni =
     add_num_value pinfo (if pi_bigdec_load pinfo = BigDec then ni\<lparr> ni_big := 1 \<rparr> else ni)"

definition read_num :: "ParseInfo \<Rightarrow> char \<Rightarrow> ParseInfo" where
  "read_num pinfo c0 =
     (let pi0 = pinfo\<lparr> pi_rd := reader_protect (pi_rd pinfo) \<rparr>;
          ni0 = ni_init pi0;
          signed = (c0 = CHR ''-'' \<or> c0 = CHR ''+'');
          c = (if signed then get_char (pi_rd pi0) else c0);
          pi1 = (if signed then pi_adv pi0 else pi0);
          ni = (if c0 = CHR ''-'' then ni0\<lparr> ni_neg := True \<rparr> else ni0) in
      if c = CHR ''I'' then
        (case reader_expect (pi_rd pi1) ''nfinity'' of
           (False, r) \<Rightarrow>
             oj_set_error_atx (pi1\<lparr> pi_rd := r \<rparr>) oj_parse_error_class ''not a number or other value'' []
         | (True, r) \<Rightarrow> finish_num (pi1\<lparr> pi_rd := r \<rparr>) (ni\<lparr> ni_infinity := True \<rparr>))
      else if c = CHR ''N'' \<or> c = CHR ''n'' then
        (let c1 = get_char (pi_rd pi1); pi2 = pi_adv pi1;
             c2 = get_char (pi_rd pi2); pi3 = pi_adv pi2 in
         if \<not> (c1 = CHR ''a'' \<and> (c2 = CHR ''N'' \<or> c2 = CHR ''n'')) then
           oj_set_error_atx pi3 oj_parse_error_class ''not a number or other value'' []
         else finish_num pi3 (ni\<lparr> ni_nan := True \<rparr>))
      else
        (case read_decimal c (pi_rd pi1) ni of
           (r, ni1) \<Rightarrow> finish_num (pi1\<lparr> pi_rd := r \<rparr>) ni1))"

section \<open>Containers and separators\<close>

definition array_start :: "ParseInfo \<Rightarrow> ParseInfo" where
  "array_start pinfo =
     (let v = RHandle (length (pi_events pinfo)); pi1 = emit pinfo StartArray in
      pi1\<lparr> pi_stack := stack_push (pi_stack pi1) v NEXT_ARRAY_NEW \<rparr>)"

definition array_end :: "ParseInfo \<Rightarrow> ParseInfo" where
  "array_end pinfo =
     (case stack_pop (pi_stack pinfo) of (array0, stk) \<Rightarrow>
        (let pi1 = pinfo\<lparr> pi_stack := stk \<rparr> in
         case array0 of
           None \<Rightarrow> oj_set_error_atx pi1 oj_parse_error_class ''unexpected array close'' []
         | Some array \<Rightarrow>
             if v_next array \<noteq> NEXT_ARRAY_COMMA \<and> v_next array \<noteq> NEXT_ARRAY_NEW then
               oj_set_error_atx pi1 oj_parse_error_class ''expected %s, not an array close''
                 [v_next array]
             else add_value (emit pi1 EndArray) (v_val array)))"

definition hash_start :: "ParseInfo \<Rightarrow> ParseInfo" where
  "hash_start pinfo =
     (let v = RHandle (length (pi_events pinfo)); pi1 = emit pinfo StartHash in
      pi1\<lparr> pi_stack := stack_push (pi_stack pi1) v NEXT_HASH_NEW \<rparr>)"

definition hash_end :: "ParseInfo \<Rightarrow> ParseInfo" where
  "hash_end pinfo =
     (case stack_peek (pi_stack pinfo) of
        None \<Rightarrow> oj_set_error_atx pinfo oj_parse_error_class ''unexpected hash close'' []
      | Some hash \<Rightarrow>
          if v_next hash \<noteq> NEXT_HASH_COMMA \<and> v_next hash \<noteq> NEXT_HASH_NEW then
            oj_set_error_atx pinfo oj_parse_error_class ''expected %s, not a hash close'' [v_next hash]
          else
            (let pi1 = emit pinfo EndHash;
                 pi2 = pi1\<lparr> pi_stack := snd (stack_pop (pi_stack pi1)) \<rparr>
             in add_value pi2 (v_val hash)))"

definition comma :: "ParseInfo \<Rightarrow> ParseInfo" where
  "comma pinfo =
     (case stack_peek (pi_stack pinfo) of
        None \<Rightarrow> oj_set_error_atx pinfo oj_parse_error_class ''unexpected comma'' []
      | Some parent \<Rightarrow>
          if v_next parent = NEXT_ARRAY_COMMA then set_top pinfo (parent\<lparr> v_next := NEXT_ARRAY_ELEMENT \<rparr>)
          else if v_next parent = NEXT_HASH_COMMA then set_top pinfo (parent\<lparr> v_next := NEXT_HASH_KEY \<rparr>)
          else oj_set_error_atx pinfo oj_parse_error_class ''unexpected comma'' [])"

definition colon :: "ParseInfo \<Rightarrow> ParseInfo" where
  "colon pinfo =
     (case stack_peek (pi_stack pinfo) of
        None \<Rightarrow> oj_set_error_atx pinfo oj_parse_error_class ''unexpected colon'' []
      | Some parent \<Rightarrow>
          if v_next parent = NEXT_HASH_COLON then set_top pinfo (parent\<lparr> v_next := NEXT_HASH_VALUE \<rparr>)
          else oj_set_error_atx pinfo oj_parse_error_class ''unexpected colon'' [])"

section \<open>The dispatcher\<close>

text \<open>The \<open>n\<close> case of the switch in \<open>oj_parse2x\<close>: \<open>null\<close> or \<open>nan\<close>.\<close>

definition read_null_or_nan :: "ParseInfo \<Rightarrow> bool \<times> ParseInfo" where
  "read_null_or_nan pinfo =
     (let c = get_char (pi_rd pinfo); pi1 = pi_adv pinfo in
      if c = CHR ''u'' then
        (case reader_expect (pi_rd pi1) ''ll'' of
           (True, r) \<Rightarrow> (False, add_value (pi1\<lparr> pi_rd := r \<rparr>) Qnil)
         | (False, r) \<Rightarrow>
             (True, oj_set_error_atx (pi1\<lparr> pi_rd := r \<rparr>) oj_parse_error_class ''expected null'' []))
      else if c = CHR ''a'' then
        (let c1 = get_char (pi_rd pi1); pi2 = pi_adv pi1 in
         if c1 \<noteq> CHR ''N'' \<and> c1 \<noteq> CHR ''n'' then
           (True, oj_set_error_atx pi2 oj_parse_error_class ''expected NaN'' [])
         else (False, add_num_value pi2 ((ni_init pi2)\<lparr> ni_nan := True \<rparr>)))
      else (True, oj_set_error_atx pi1 oj_parse_error_class ''invalid token'' []))"

text \<open>
  One turn of the switch for a character other than NUL. The first component is
  \<open>True\<close> where the source returns from \<open>oj_parse2x\<close> inside the switch.
\<close>

definition dispatch :: "char \<Rightarrow> ParseInfo \<Rightarrow> bool \<times> ParseInfo" where
  "dispatch c pinfo =
     (if c = CHR ''{'' then (False, hash_start pinfo)
      else if c = CHR ''}'' then (False, hash_end pinfo)
      else if c = CHR '':'' then (False, colon pinfo)
      else if c = CHR ''['' then (False, array_start pinfo)
      else if c = CHR '']'' then (False, array_end pinfo)
      else if c = CHR '','' then (False, comma pinfo)
      else if c = CHR 0x22 then (False, read_str pinfo)
      else if c = CHR ''+'' \<or> c = CHR ''-'' \<or> is_digit c \<or> c = CHR ''I'' \<or> c = CHR ''N'' then
        (False, read_num pinfo c)
      else if c = CHR ''t'' then (False, read_true pinfo)
      else if c = CHR ''f'' then (False, read_false pinfo)
      else if c = CHR ''n'' then read_null_or_nan pinfo
      else if c = CHR ''/'' then (False, skip_comment pinfo)
      else (True, oj_set_error_atx pinfo oj_parse_error_class ''unexpected character'' []))"

text \<open>No operation of the parser moves the reader backwards.\<close>

lemma rd_rem_reader_expect: "rd_rem (snd (reader_expect r s)) \<le> rd_rem r"
proof (induction s arbitrary: r)
  case Nil
  show ?case by simp
next
  case (Cons a s)
  show ?case
    using Cons.IH [of "advance r"] rd_rem_advance [of r] by auto
qed

lemma rd_rem_line_comment_loop: "rd_rem r \<le> n \<Longrightarrow> rd_rem (snd (line_comment_loop r)) \<le> n"
proof (induction r rule: line_comment_loop.induct)
  case (1 r)
  have a1: "rd_rem (advance r) \<le> n" using rd_rem_advance [of r] 1(2) by simp
  show ?case
    using 1(1) a1 by (subst line_comment_loop.simps) (simp add: Let_def)
qed

lemma rd_rem_block_comment_loop: "rd_rem r \<le> n \<Longrightarrow> rd_rem (snd (block_comment_loop r)) \<le> n"
proof (induction r rule: block_comment_loop.induct)
  case (1 r)
  have a1: "rd_rem (advance r) \<le> n" using rd_rem_advance [of r] 1(3) by simp
  have a2: "rd_rem (advance (advance r)) \<le> n" using rd_rem_advance [of "advance r"] a1 by simp
  show ?case
    using 1(1,2) a1 a2 by (subst block_comment_loop.simps) (simp add: Let_def)
qed

lemma rd_rem_read_str_loop: "rd_rem r \<le> n \<Longrightarrow> rd_rem (snd (read_str_loop r)) \<le> n"
proof (induction r rule: read_str_loop.induct)
  case (1 r)
  have a1: "rd_rem (advance r) \<le> n" using rd_rem_advance [of r] 1(2) by simp
  show ?case
    using 1(1) a1 by (subst read_str_loop.simps) (simp add: Let_def)
qed

lemma rd_rem_int_loop: "rd_rem r \<le> n \<Longrightarrow> rd_rem (fst (snd (int_loop c r ni z))) \<le> n"
proof (induction c r ni z rule: int_loop.induct)
  case (1 c r ni z)
  have a1: "rd_rem (advance r) \<le> n" using rd_rem_advance [of r] 1(2) by simp
  show ?case
    using 1 a1 by (subst int_loop.simps) simp
qed

lemma rd_rem_frac_loop: "rd_rem r \<le> n \<Longrightarrow> rd_rem (fst (snd (frac_loop c r ni z))) \<le> n"
proof (induction c r ni z rule: frac_loop.induct)
  case (1 c r ni z)
  have a1: "rd_rem (advance r) \<le> n" using rd_rem_advance [of r] 1(2) by simp
  show ?case
    using 1 a1 by (subst frac_loop.simps) simp
qed

lemma rd_rem_exp_loop: "rd_rem r \<le> n \<Longrightarrow> rd_rem (fst (snd (exp_loop c r ni))) \<le> n"
proof (induction c r ni rule: exp_loop.induct)
  case (1 c r ni)
  have a1: "rd_rem (advance r) \<le> n" using rd_rem_advance [of r] 1(2) by simp
  show ?case
    using 1 a1 by (subst exp_loop.simps) simp
qed

lemma pi_rem_emit [simp]: "pi_rem (emit pinfo e) = pi_rem pinfo"
  by (simp add: pi_rem_def emit_def)

lemma pi_rem_set_top [simp]: "pi_rem (set_top pinfo v) = pi_rem pinfo"
  by (simp add: pi_rem_def set_top_def)

lemma pi_rem_stack_update [simp]: "pi_rem (pinfo\<lparr> pi_stack := s \<rparr>) = pi_rem pinfo"
  by (simp add: pi_rem_def)

lemma pi_rem_rd_update [simp]: "pi_rem (pinfo\<lparr> pi_rd := r \<rparr>) = rd_rem r"
  by (simp add: pi_rem_def)

lemma pi_rem_add_value [simp]: "pi_rem (add_value pinfo v) = pi_rem pinfo"
  by (simp add: add_value_def split: option.splits)

lemma pi_rem_add_num_value [simp]: "pi_rem (add_num_value pinfo ni) = pi_rem pinfo"
  by (simp add: add_num_value_def split: option.splits)

lemma pi_rem_add_cstr [simp]: "pi_rem (add_cstr pinfo parent s k) = pi_rem pinfo"
  by (simp add: add_cstr_def split: option.splits)

lemma pi_rem_pi_reset [simp]: "pi_rem (pi_reset pinfo) = pi_rem pinfo"
  by (simp add: pi_reset_def reader_reset_def pi_rem_def rd_rem_def)

lemma rd_rem_reader_protect [simp]: "rd_rem (reader_protect r) = rd_rem r"
  by (simp add: reader_protect_def rd_rem_def)

lemma pi_rem_escaped_loop: "pi_rem pinfo \<le> n \<Longrightarrow> pi_rem (snd (escaped_loop pinfo buf)) \<le> n"
proof (induction pinfo buf rule: escaped_loop.induct)
  case (1 pinfo buf)
  have a1: "pi_rem (pi_adv pinfo) \<le> n" using pi_rem_pi_adv [of pinfo] 1 by simp
  have a2: "pi_rem (snd (read_escape (pi_adv pinfo) buf)) \<le> n"
    using pi_rem_read_escape [of "pi_adv pinfo" buf] a1 by simp
  show ?case
  proof (cases "read_escape (pi_adv pinfo) buf")
    case (Pair ob p2)
    then have p2: "pi_rem p2 \<le> n" using a2 by simp
    show ?thesis
      using 1 a1 p2 Pair
      by (subst escaped_loop.simps) (simp add: Let_def split: option.splits)
  qed
qed


lemma pi_rem_skip_comment: "pi_rem (skip_comment pinfo) \<le> pi_rem pinfo"
proof -
  have a1: "rd_rem (advance (pi_rd pinfo)) \<le> pi_rem pinfo"
    using rd_rem_advance [of "pi_rd pinfo"] by (simp add: pi_rem_def)
  obtain b1 r1 where bl: "block_comment_loop (advance (pi_rd pinfo)) = (b1, r1)"
    by (cases "block_comment_loop (advance (pi_rd pinfo))")
  obtain b2 r2 where ll: "line_comment_loop (advance (pi_rd pinfo)) = (b2, r2)"
    by (cases "line_comment_loop (advance (pi_rd pinfo))")
  have b: "rd_rem r1 \<le> pi_rem pinfo" using rd_rem_block_comment_loop [OF a1] bl by simp
  have l: "rd_rem r2 \<le> pi_rem pinfo" using rd_rem_line_comment_loop [OF a1] ll by simp
  show ?thesis
    using a1 b l by (simp add: skip_comment_def Let_def bl ll split: bool.splits)
qed

lemma pi_rem_expect:
  "pi_rem p \<le> n \<Longrightarrow> reader_expect (pi_rd p) s = (b, r) \<Longrightarrow> rd_rem r \<le> n"
  using rd_rem_reader_expect [of "pi_rd p" s] by (simp add: pi_rem_def)

lemma pi_rem_read_true: "pi_rem (read_true pinfo) \<le> pi_rem pinfo"
proof -
  obtain b r where e: "reader_expect (pi_rd pinfo) ''rue'' = (b, r)"
    by (cases "reader_expect (pi_rd pinfo) ''rue''")
  show ?thesis
    unfolding read_true_def e using pi_rem_expect [OF order_refl e]
    by (simp split: bool.splits)
qed

lemma pi_rem_read_false: "pi_rem (read_false pinfo) \<le> pi_rem pinfo"
proof -
  obtain b r where e: "reader_expect (pi_rd pinfo) ''alse'' = (b, r)"
    by (cases "reader_expect (pi_rd pinfo) ''alse''")
  show ?thesis
    unfolding read_false_def e using pi_rem_expect [OF order_refl e]
    by (simp split: bool.splits)
qed

lemma pi_rem_read_escaped_str: "pi_rem (read_escaped_str pinfo) \<le> pi_rem pinfo"
proof -
  define buf0 where "buf0 = (if str_off (pi_rd pinfo) < rd_tail (pi_rd pinfo) then rd_span (pi_rd pinfo) else [])"
  obtain ob p1 where e: "escaped_loop pinfo buf0 = (ob, p1)" by (cases "escaped_loop pinfo buf0")
  have "pi_rem p1 \<le> pi_rem pinfo" using pi_rem_escaped_loop [OF order_refl, of pinfo buf0] e by simp
  then show ?thesis
    unfolding read_escaped_str_def Let_def buf0_def [symmetric] e
    by (simp split: option.splits)
qed

lemma pi_rem_read_str: "pi_rem (read_str pinfo) \<le> pi_rem pinfo"
proof -
  obtain c r where lp: "read_str_loop (reader_protect (pi_rd pinfo)) = (c, r)"
    by (cases "read_str_loop (reader_protect (pi_rd pinfo))")
  have r: "rd_rem r \<le> pi_rem pinfo"
    using rd_rem_read_str_loop [of "reader_protect (pi_rd pinfo)" "pi_rem pinfo"] lp
    by (simp add: pi_rem_def)
  have e: "pi_rem (read_escaped_str (pinfo\<lparr> pi_rd := r \<rparr>)) \<le> pi_rem pinfo"
    using pi_rem_read_escaped_str [of "pinfo\<lparr> pi_rd := r \<rparr>"] r by simp
  show ?thesis
    using r e by (simp add: read_str_def Let_def lp)
qed

lemma rd_rem_read_exponent: "rd_rem r \<le> n \<Longrightarrow> rd_rem (fst (read_exponent r ni)) \<le> n"
proof -
  assume n: "rd_rem r \<le> n"
  define c1 where "c1 = (if get_char r = CHR ''-'' \<or> get_char r = CHR ''+'' then get_char (advance r) else get_char r)"
  define r2 where "r2 = (if get_char r = CHR ''-'' \<or> get_char r = CHR ''+'' then advance (advance r) else advance r)"
  have a1: "rd_rem (advance r) \<le> n" using rd_rem_advance [of r] n by simp
  have a2: "rd_rem (advance (advance r)) \<le> n" using rd_rem_advance [of "advance r"] a1 by simp
  have r2: "rd_rem r2 \<le> n" using a1 a2 by (simp add: r2_def)
  obtain c2 r3 ni1 where e: "exp_loop c1 r2 ni = (c2, r3, ni1)" by (cases "exp_loop c1 r2 ni")
  have "rd_rem r3 \<le> n" using rd_rem_exp_loop [OF r2, of c1 ni] e by simp
  then show ?thesis
    unfolding read_exponent_def Let_def c1_def [symmetric] r2_def [symmetric] e by simp
qed

lemma rd_rem_read_decimal: "rd_rem r \<le> n \<Longrightarrow> rd_rem (fst (read_decimal c r ni)) \<le> n"
proof -
  assume n: "rd_rem r \<le> n"
  obtain c1 r1 ni1 zc1 where il: "int_loop c r ni 0 = (c1, r1, ni1, zc1)"
    by (cases "int_loop c r ni 0")
  have r1: "rd_rem r1 \<le> n" using rd_rem_int_loop [OF n, of c ni 0] il by simp
  obtain c2 r2 ni2 zc2 where fl:
    "(if c1 = CHR ''.'' then frac_loop (get_char r1) (advance r1) ni1 zc1 else (c1, r1, ni1, zc1))
      = (c2, r2, ni2, zc2)"
    by (cases "if c1 = CHR ''.'' then frac_loop (get_char r1) (advance r1) ni1 zc1 else (c1, r1, ni1, zc1)")
  have a1: "rd_rem (advance r1) \<le> n" using rd_rem_advance [of r1] r1 by simp
  have r2: "rd_rem r2 \<le> n"
    using rd_rem_frac_loop [OF a1, of "get_char r1" ni1 zc1] r1 fl by (auto split: if_splits)
  obtain r3 ni3 where el:
    "(if c2 = CHR ''e'' \<or> c2 = CHR ''E'' then read_exponent r2 ni2 else (r2, ni2)) = (r3, ni3)"
    by (cases "if c2 = CHR ''e'' \<or> c2 = CHR ''E'' then read_exponent r2 ni2 else (r2, ni2)")
  have r3: "rd_rem r3 \<le> n"
    using rd_rem_read_exponent [OF r2, of ni2] r2 el by (auto split: if_splits)
  show ?thesis
    unfolding read_decimal_def il fl el prod.case using r3 by simp
qed

lemma pi_rem_finish_num [simp]: "pi_rem (finish_num pinfo ni) = pi_rem pinfo"
  by (simp add: finish_num_def)

lemma pi_rem_read_num: "pi_rem (read_num pinfo c) \<le> pi_rem pinfo"
proof -
  define p0 where "p0 = pinfo\<lparr> pi_rd := reader_protect (pi_rd pinfo) \<rparr>"
  define p1 where "p1 = (if c = CHR ''-'' \<or> c = CHR ''+'' then pi_adv p0 else p0)"
  define c1 where "c1 = (if c = CHR ''-'' \<or> c = CHR ''+'' then get_char (pi_rd p0) else c)"
  define ni where "ni = (if c = CHR ''-'' then (ni_init p0)\<lparr> ni_neg := True \<rparr> else ni_init p0)"
  have p0: "pi_rem p0 = pi_rem pinfo" by (simp add: p0_def pi_rem_def [of pinfo])
  have p1: "pi_rem p1 \<le> pi_rem pinfo" using pi_rem_pi_adv [of p0] p0 by (simp add: p1_def)
  obtain b r where e: "reader_expect (pi_rd p1) ''nfinity'' = (b, r)"
    by (cases "reader_expect (pi_rd p1) ''nfinity''")
  have r: "rd_rem r \<le> pi_rem pinfo" using pi_rem_expect [OF p1 e] .
  have nn: "pi_rem (pi_adv (pi_adv p1)) \<le> pi_rem pinfo"
    using pi_rem_pi_adv [of p1] pi_rem_pi_adv [of "pi_adv p1"] p1 by simp
  obtain r' ni' where d: "read_decimal c1 (pi_rd p1) ni = (r', ni')"
    by (cases "read_decimal c1 (pi_rd p1) ni")
  have dec: "rd_rem r' \<le> pi_rem pinfo"
    using rd_rem_read_decimal [of "pi_rd p1" "pi_rem pinfo" c1 ni] p1 d by (simp add: pi_rem_def)
  show ?thesis
    unfolding read_num_def Let_def p0_def [symmetric] p1_def [symmetric] c1_def [symmetric]
      ni_def [symmetric] e d
    using r nn dec by (simp split: bool.splits)
qed

lemma pi_rem_array_start [simp]: "pi_rem (array_start pinfo) = pi_rem pinfo"
  by (simp add: array_start_def Let_def)

lemma pi_rem_hash_start [simp]: "pi_rem (hash_start pinfo) = pi_rem pinfo"
  by (simp add: hash_start_def Let_def)

lemma pi_rem_array_end [simp]: "pi_rem (array_end pinfo) = pi_rem pinfo"
  by (simp add: array_end_def Let_def split: prod.splits option.splits)

lemma pi_rem_hash_end [simp]: "pi_rem (hash_end pinfo) = pi_rem pinfo"
  by (simp add: hash_end_def Let_def split: prod.splits option.splits)

lemma pi_rem_comma [simp]: "pi_rem (comma pinfo) = pi_rem pinfo"
  by (simp add: comma_def split: option.splits)

lemma pi_rem_colon [simp]: "pi_rem (colon pinfo) = pi_rem pinfo"
  by (simp add: colon_def split: option.splits)

lemma pi_rem_read_null_or_nan: "pi_rem (snd (read_null_or_nan pinfo)) \<le> pi_rem pinfo"
proof -
  have a1: "pi_rem (pi_adv pinfo) \<le> pi_rem pinfo" by (rule pi_rem_pi_adv)
  have a2: "pi_rem (pi_adv (pi_adv pinfo)) \<le> pi_rem pinfo"
    using pi_rem_pi_adv [of "pi_adv pinfo"] a1 by simp
  obtain b r where e: "reader_expect (pi_rd (pi_adv pinfo)) ''ll'' = (b, r)"
    by (cases "reader_expect (pi_rd (pi_adv pinfo)) ''ll''")
  have r: "rd_rem r \<le> pi_rem pinfo" using pi_rem_expect [OF a1 e] .
  show ?thesis
    unfolding read_null_or_nan_def Let_def e using a1 a2 r
    by (simp split: bool.splits)
qed

lemma pi_rem_dispatch: "pi_rem (snd (dispatch c pinfo)) \<le> pi_rem pinfo"
  using pi_rem_read_str [of pinfo] pi_rem_read_num [of pinfo c] pi_rem_read_true [of pinfo]
    pi_rem_read_false [of pinfo] pi_rem_read_null_or_nan [of pinfo] pi_rem_skip_comment [of pinfo]
  by (simp add: dispatch_def)

lemma rd_rem_next_non_white:
  "rd_rem r \<le> n \<Longrightarrow> fst (reader_next_non_white r) \<noteq> NUL \<Longrightarrow>
   rd_rem (snd (reader_next_non_white r)) < n"
proof (induction r rule: reader_next_non_white.induct)
  case (1 r)
  show ?case
  proof (cases "get_char r = NUL")
    case True
    then show ?thesis using 1(3) by (subst (asm) reader_next_non_white.simps) (simp add: Let_def)
  next
    case False
    have less: "rd_rem (advance r) < n" using rd_rem_advance_less [OF False] 1(2) by simp
    show ?thesis
    proof (cases "is_white (get_char r)")
      case True
      have eq: "reader_next_non_white r = reader_next_non_white (advance r)"
        using False True by (subst reader_next_non_white.simps) (simp add: Let_def)
      have "rd_rem (snd (reader_next_non_white (advance r))) < n"
        using 1(1) [OF refl refl False True] less 1(3) eq by simp
      then show ?thesis using eq by simp
    next
      case nw: False
      show ?thesis
        using False nw less by (subst reader_next_non_white.simps) (simp add: Let_def)
    qed
  qed
qed

text \<open>
  \<open>oj_parse2x\<close>: the loop reads the next significant character and dispatches on
  it, until end of input, a return inside the switch, or an error. The call-back of
  a block or proc after each turn (when the stack is empty) does not touch the
  parse state and is left out.
\<close>

function oj_parse2x_loop :: "ParseInfo \<Rightarrow> ParseInfo" where
  "oj_parse2x_loop pinfo =
     (case reader_next_non_white (pi_rd pinfo) of (c, r) \<Rightarrow>
        (let pi1 = pinfo\<lparr> pi_rd := r \<rparr> in
         if c = NUL then pi1
         else
           (case dispatch c pi1 of (returned, pi2) \<Rightarrow>
              if returned then pi2
              else if err_has (pi_err pi2) then pi2
              else oj_parse2x_loop pi2)))"
  by pat_completeness auto
termination
proof (relation "measure pi_rem", goal_cases)
  case 1
  show ?case by simp
next
  case (2 pinfo c r pi1 returned pi2)
  have "fst (reader_next_non_white (pi_rd pinfo)) = c" "snd (reader_next_non_white (pi_rd pinfo)) = r"
    using 2(1) by (metis fst_conv, metis snd_conv)
  then have "rd_rem r < pi_rem pinfo"
    using rd_rem_next_non_white [of "pi_rd pinfo" "pi_rem pinfo"] 2(3) by (simp add: pi_rem_def)
  then have "pi_rem pi1 < pi_rem pinfo" using 2(2) by simp
  moreover have "snd (dispatch c pi1) = pi2" using 2(4) by (metis snd_conv)
  then have "pi_rem pi2 \<le> pi_rem pi1" using pi_rem_dispatch [of c pi1] by simp
  ultimately show ?case by simp
qed

declare oj_parse2x_loop.simps [simp del]

definition oj_parse2x :: "ParseInfo \<Rightarrow> ParseInfo" where
  "oj_parse2x pinfo = oj_parse2x_loop (pinfo\<lparr> pi_err := err_init \<rparr>)"

section \<open>Value construction\<close>

text \<open>
  The results of \<open>oj_num_as_valuex\<close>. Conversions done by the Ruby runtime keep
  their argument: \<open>RInum\<close> is \<open>rb_cstr_to_inum\<close> of the raw span, \<open>RBigDecimal\<close>
  is \<open>BigDecimal.new\<close> of it and \<open>RBigDecimalToF\<close> its \<open>to_f\<close>. \<open>RDouble neg i
  num div exp\<close> is the double computed as \<open>(double)i + (double)num / (double)div\<close>,
  negated when \<open>neg\<close>, times \<open>pow(10.0, exp)\<close> when \<open>exp\<close> is not 0; floating-point
  evaluation is not modelled, the operands are kept.
\<close>

datatype RNum =
    RFloatInf bool
  | RFloatNaN
  | RInum string
  | RFixnum int
  | RBigDecimal string
  | RBigDecimalToF string
  | RDouble bool int int int int

text \<open>The bytes of the raw span \<open>ni->str .. ni->str + ni->len\<close> in the input \<open>mem\<close>.\<close>

definition raw_span :: "string \<Rightarrow> NumInfo \<Rightarrow> string" where
  "raw_span mem ni = take (ni_len ni) (drop (ni_str ni) mem)"

definition oj_num_as_valuex :: "string \<Rightarrow> NumInfo \<Rightarrow> RNum" where
  "oj_num_as_valuex mem ni =
     (if ni_infinity ni then (if ni_neg ni then RFloatInf True else RFloatInf False)
      else if ni_nan ni then RFloatNaN
      else if ni_div ni = 1 \<and> ni_exp ni = 0 then
        (if ni_big ni \<noteq> 0 then RInum (raw_span mem ni)
         else if ni_neg ni then RFixnum (sint (- ni_i ni))
         else RFixnum (sint (ni_i ni)))
      else
        (if ni_big ni \<noteq> 0 then
           (if ni_no_big ni then RBigDecimalToF (raw_span mem ni) else RBigDecimal (raw_span mem ni))
         else RDouble (ni_neg ni) (sint (ni_i ni)) (sint (ni_num ni)) (sint (ni_div ni))
                (sint (ni_exp ni))))"

section \<open>The entry point\<close>

text \<open>
  The test after the parse in \<open>oj_pi_parsex\<close>: input that ends inside a container.
\<close>

definition check_terminated :: "ParseInfo \<Rightarrow> ParseInfo" where
  "check_terminated pinfo =
     (if \<not> err_has (pi_err pinfo) then
        (case stack_peek (pi_stack pinfo) of
           None \<Rightarrow> pinfo
         | Some v \<Rightarrow>
             (case v_next v of
                NEXT_ARRAY_NEW \<Rightarrow> oj_set_error_atx pinfo oj_parse_error_class ''Array not terminated'' []
              | NEXT_ARRAY_ELEMENT \<Rightarrow> oj_set_error_atx pinfo oj_parse_error_class ''Array not terminated'' []
              | NEXT_ARRAY_COMMA \<Rightarrow> oj_set_error_atx pinfo oj_parse_error_class ''Array not terminated'' []
              | NEXT_HASH_NEW \<Rightarrow> oj_set_error_atx pinfo oj_parse_error_class ''Hash/Object not terminated'' []
              | NEXT_HASH_KEY \<Rightarrow> oj_set_error_atx pinfo oj_parse_error_class ''Hash/Object not terminated'' []
              | NEXT_HASH_COLON \<Rightarrow> oj_set_error_atx pinfo oj_parse_error_class ''Hash/Object not terminated'' []
              | NEXT_HASH_VALUE \<Rightarrow> oj_set_error_atx pinfo oj_parse_error_class ''Hash/Object not terminated'' []
              | NEXT_HASH_COMMA \<Rightarrow> oj_set_error_atx pinfo oj_parse_error_class ''Hash/Object not terminated'' []
              | NEXT_NONE \<Rightarrow> oj_set_error_atx pinfo oj_parse_error_class ''not terminated'' []))
      else pinfo)"

text \<open>
  \<open>oj_pi_parsex\<close> on the input string with the \<open>bigdec_load\<close> option: the state
  when the function is about to raise the recorded error or return the result.
  Option parsing, the garbage-collector switches and the circular-reference table
  do not bear on the parse and are left out.
\<close>

definition parse_init :: "string \<Rightarrow> BigLoad \<Rightarrow> ParseInfo" where
  "parse_init input opt =
     \<lparr> pi_rd = \<lparr> rd_input = input, rd_tail = 0, rd_str = None \<rparr>,
       pi_stack = [], pi_err = err_init, pi_bigdec_load = opt,
       pi_events = [], pi_err_calls = [] \<rparr>"

definition oj_pi_parsex :: "string \<Rightarrow> BigLoad \<Rightarrow> ParseInfo" where
  "oj_pi_parsex input opt = check_terminated (oj_parse2x (parse_init input opt))"

section \<open>Auxiliary notions for the claims\<close>

text \<open>A sequence of calls of the error-setting routine, in order.\<close>

definition set_errors :: "ParseInfo \<Rightarrow> (VALUE \<times> string \<times> ValNext list) list \<Rightarrow> ParseInfo" where
  "set_errors pinfo calls = foldl (\<lambda>p (c, f, a). oj_set_error_atx p c f a) pinfo calls"

text \<open>The array states and the object states of a frame.\<close>

definition is_array_next :: "ValNext \<Rightarrow> bool" where
  "is_array_next n = (n = NEXT_ARRAY_NEW \<or> n = NEXT_ARRAY_ELEMENT \<or> n = NEXT_ARRAY_COMMA)"

definition is_hash_next :: "ValNext \<Rightarrow> bool" where
  "is_hash_next n = (n = NEXT_HASH_NEW \<or> n = NEXT_HASH_KEY \<or> n = NEXT_HASH_COLON \<or>
     n = NEXT_HASH_VALUE \<or> n = NEXT_HASH_COMMA)"

text \<open>
  The numbers a parse hands to the builder, each turned into a value by
  \<open>oj_num_as_valuex\<close> with the input as the memory its raw span points into.
\<close>

fun event_num :: "Event \<Rightarrow> NumInfo option" where
  "event_num (AddNum ni) = Some ni"
| "event_num (ArrayAppendNum ni) = Some ni"
| "event_num (HashSetNum k l ni) = Some ni"
| "event_num _ = None"

definition parsed_numbers :: "string \<Rightarrow> BigLoad \<Rightarrow> RNum list" where
  "parsed_numbers input opt =
     map (oj_num_as_valuex input) (List.map_filter event_num (pi_events (oj_pi_parsex input opt)))"






subsection \<open>Decimal literals\<close>







text \<open>The reader after the loop: moved over the digits and the character that ended them.\<close>

definition skip_run :: "Reader \<Rightarrow> nat \<Rightarrow> string \<Rightarrow> Reader" where
  "skip_run r n rest = r\<lparr> rd_tail := rd_tail r + n + (if rest = [] then 0 else 1) \<rparr>"

definition digits_val :: "nat list \<Rightarrow> nat" where
  "digits_val ds = foldl (\<lambda>a d. 10 * a + d) 0 ds"

definition tz :: "nat list \<Rightarrow> nat" where
  "tz ds = length (takeWhile (\<lambda>d. d = 0) (rev ds))"

definition sig_count :: "nat list \<Rightarrow> nat" where
  "sig_count ds = length ds - tz ds"





















definition parsed_big :: "string \<Rightarrow> BigLoad \<Rightarrow> int list" where
  "parsed_big input opt = map ni_big (List.map_filter event_num (pi_events (oj_pi_parsex input opt)))"

definition parsed_spans :: "string \<Rightarrow> BigLoad \<Rightarrow> string list" where
  "parsed_spans input opt =
     map (raw_span input) (List.map_filter event_num (pi_events (oj_pi_parsex input opt)))"

section \<open>The error slot (C3)\<close>

lemma set_errors_snoc:
  "set_errors pinfo (calls @ [(c, f, a)]) = oj_set_error_atx (set_errors pinfo calls) c f a"
  by (simp add: set_errors_def)

text \<open>
  C3, as stated, fails: the error slot is overwritten by a later call of
  \<open>oj_set_error_atx\<close>. After a first call with the parse-error class and a second
  call with another class the slot holds the second class. Within one parse the
  routine can be called twice: on the input \<open>/\<close> the comment skipper calls it with
  "invalid comment format" and then with "comment not terminated".
\<close>

theorem C3_setter_overwrites:
  "clas (pi_err (oj_set_error_atx
      (oj_set_error_atx (parse_init [] AutoDec) oj_parse_error_class ''first'' [])
      (RClass ''ArgumentError'') ''second'' [])) = RClass ''ArgumentError'' \<and>
   clas (pi_err (oj_set_error_atx (parse_init [] AutoDec) oj_parse_error_class ''first'' []))
     = oj_parse_error_class \<and>
   oj_parse_error_class \<noteq> RClass ''ArgumentError'' \<and>
   pi_err_calls (oj_pi_parsex ''/'' AutoDec) =
     [(oj_parse_error_class, ''invalid comment format'', []),
      (oj_parse_error_class, ''comment not terminated'', [])]"
  by code_simp

text \<open>
  C3, amended: the error slot keeps the class only, and every call of
  \<open>oj_set_error_atx\<close> overwrites it. After any non-empty sequence of calls the slot
  holds the class passed to the last call; the message buffer of the slot is never
  written.
\<close>

theorem C3_last_call_wins:
  assumes "calls \<noteq> []"
  shows "clas (pi_err (set_errors pinfo calls)) = fst (last calls) \<and>
         msg (pi_err (set_errors pinfo calls)) = msg (pi_err pinfo) \<and>
         pi_err_calls (set_errors pinfo calls) = pi_err_calls pinfo @ calls"
  using assms
proof (induction calls rule: rev_induct)
  case Nil
  then show ?case by simp
next
  case (snoc x xs)
  obtain c f a where x: "x = (c, f, a)" by (cases x)
  have m: "msg (pi_err (set_errors pinfo xs)) = msg (pi_err pinfo) \<and>
           pi_err_calls (set_errors pinfo xs) = pi_err_calls pinfo @ xs"
  proof (cases "xs = []")
    case True
    then show ?thesis by (simp add: set_errors_def)
  next
    case False
    then show ?thesis using snoc.IH by simp
  qed
  show ?case
    using m by (simp add: x set_errors_snoc oj_set_error_atx_def)
qed

theorem C3_last_call_wins_witness:
  "clas (pi_err (set_errors (parse_init [] AutoDec)
      [(oj_parse_error_class, ''invalid comment format'', []),
       (RClass ''ArgumentError'', ''second'', [])])) = RClass ''ArgumentError''"
proof -
  have ne: "[(oj_parse_error_class, ''invalid comment format'', []),
       (RClass ''ArgumentError'', ''second'', [])] \<noteq> ([] :: (VALUE \<times> string \<times> ValNext list) list)"
    by simp
  show ?thesis using C3_last_call_wins [OF ne, of "parse_init [] AutoDec"] by simp
qed

section \<open>Input that ends inside a container (C4)\<close>

text \<open>
  C4: when \<open>oj_parse2x\<close> comes back at the end of the input with no error recorded
  and a frame on the stack, \<open>oj_pi_parsex\<close> records an error, and the call of the
  error-setting routine carries "Array not terminated" when the top frame is in an
  array state and "Hash/Object not terminated" when it is in an object state.
\<close>

theorem C4_not_terminated:
  assumes "\<not> err_has (pi_err (oj_parse2x (parse_init input opt)))"
    and "pi_stack (oj_parse2x (parse_init input opt)) = v # vs"
  shows "err_has (pi_err (oj_pi_parsex input opt)) \<and>
         pi_stack (oj_pi_parsex input opt) = v # vs \<and>
         (is_array_next (v_next v) \<longrightarrow>
            pi_err_calls (oj_pi_parsex input opt) =
              pi_err_calls (oj_parse2x (parse_init input opt)) @
                [(oj_parse_error_class, ''Array not terminated'', [])]) \<and>
         (is_hash_next (v_next v) \<longrightarrow>
            pi_err_calls (oj_pi_parsex input opt) =
              pi_err_calls (oj_parse2x (parse_init input opt)) @
                [(oj_parse_error_class, ''Hash/Object not terminated'', [])])"
  using assms
  by (cases "v_next v")
     (simp_all add: oj_pi_parsex_def check_terminated_def stack_peek_def oj_set_error_atx_def
        err_has_def oj_parse_error_class_def is_array_next_def is_hash_next_def)

theorem C4_not_terminated_witness:
  "err_has (pi_err (oj_pi_parsex ''[1'' AutoDec)) \<and>
   pi_err_calls (oj_pi_parsex ''[1'' AutoDec) = [(oj_parse_error_class, ''Array not terminated'', [])] \<and>
   err_has (pi_err (oj_pi_parsex ''{'' AutoDec)) \<and>
   pi_err_calls (oj_pi_parsex ''{'' AutoDec) = [(oj_parse_error_class, ''Hash/Object not terminated'', [])]"
proof -
  have a1: "\<not> err_has (pi_err (oj_parse2x (parse_init ''[1'' AutoDec)))" by code_simp
  have a2: "pi_stack (oj_parse2x (parse_init ''[1'' AutoDec)) =
    \<lparr> v_val = RHandle 0, v_key = NullKey, v_klen = 0, v_k1 = NUL, v_next = NEXT_ARRAY_COMMA \<rparr> # []"
    by code_simp
  have a3: "pi_err_calls (oj_parse2x (parse_init ''[1'' AutoDec)) = []" by code_simp
  have h1: "\<not> err_has (pi_err (oj_parse2x (parse_init ''{'' AutoDec)))" by code_simp
  have h2: "pi_stack (oj_parse2x (parse_init ''{'' AutoDec)) =
    \<lparr> v_val = RHandle 0, v_key = NullKey, v_klen = 0, v_k1 = NUL, v_next = NEXT_HASH_NEW \<rparr> # []"
    by code_simp
  have h3: "pi_err_calls (oj_parse2x (parse_init ''{'' AutoDec)) = []" by code_simp
  show ?thesis
    using C4_not_terminated [OF a1 a2] C4_not_terminated [OF h1 h2] a3 h3
    by (simp add: is_array_next_def is_hash_next_def)
qed

section \<open>Comments (C5)\<close>

text \<open>
  C5, at the input \<open>//abc\<close>: a line comment that runs to the end of the input.
  The loop of \<open>skip_comment\<close> ends with \<open>c = NUL\<close>, the test after the loop then
  records "comment not terminated", and the parse fails. The claim says that no
  error is recorded.
\<close>

theorem C5_line_comment_at_end_of_input:
  "err_has (pi_err (oj_pi_parsex ''//abc'' AutoDec)) \<and>
   pi_err_calls (oj_pi_parsex ''//abc'' AutoDec) =
     [(oj_parse_error_class, ''comment not terminated'', [])]"
  by code_simp

section \<open>Separators (C6)\<close>

text \<open>
  The transitions of \<open>comma\<close> and \<open>colon\<close> themselves: accepted in exactly the
  states the claim names, an error and an unchanged stack otherwise.
\<close>

lemma comma_transitions:
  "comma pinfo =
     (case pi_stack pinfo of
        [] \<Rightarrow> oj_set_error_atx pinfo oj_parse_error_class ''unexpected comma'' []
      | v # vs \<Rightarrow>
          if v_next v = NEXT_ARRAY_COMMA then pinfo\<lparr> pi_stack := v\<lparr> v_next := NEXT_ARRAY_ELEMENT \<rparr> # vs \<rparr>
          else if v_next v = NEXT_HASH_COMMA then pinfo\<lparr> pi_stack := v\<lparr> v_next := NEXT_HASH_KEY \<rparr> # vs \<rparr>
          else oj_set_error_atx pinfo oj_parse_error_class ''unexpected comma'' [])"
  by (simp add: comma_def stack_peek_def set_top_def split: list.splits)

lemma colon_transitions:
  "colon pinfo =
     (case pi_stack pinfo of
        [] \<Rightarrow> oj_set_error_atx pinfo oj_parse_error_class ''unexpected colon'' []
      | v # vs \<Rightarrow>
          if v_next v = NEXT_HASH_COLON then pinfo\<lparr> pi_stack := v\<lparr> v_next := NEXT_HASH_VALUE \<rparr> # vs \<rparr>
          else oj_set_error_atx pinfo oj_parse_error_class ''unexpected colon'' [])"
  by (simp add: colon_def stack_peek_def set_top_def split: list.splits)

text \<open>
  C6, at the inputs \<open>[1,]\<close> and \<open>{"a":1,}\<close>: \<open>read_num\<close> reads the character that
  ends the number and does not give it back, so the comma after \<open>1\<close> never reaches
  \<open>comma\<close>; the frame is in its comma state when the closing bracket arrives, the
  close is accepted and the parse ends with no error. The claim says that both
  inputs are rejected.
\<close>

theorem C6_trailing_comma_accepted:
  "\<not> err_has (pi_err (oj_pi_parsex ''[1,]'' AutoDec)) \<and>
   pi_err_calls (oj_pi_parsex ''[1,]'' AutoDec) = [] \<and>
   pi_stack (oj_pi_parsex ''[1,]'' AutoDec) = [] \<and>
   \<not> err_has (pi_err (oj_pi_parsex (''{'' @ [CHR 0x22] @ ''a'' @ [CHR 0x22] @ '':1,}'') AutoDec))"
  by code_simp

section \<open>Closing a container (C8)\<close>

lemma hash_end_illegal_keeps_stack:
  assumes "pi_stack pinfo = [] \<or>
    (v_next (hd (pi_stack pinfo)) \<noteq> NEXT_HASH_COMMA \<and> v_next (hd (pi_stack pinfo)) \<noteq> NEXT_HASH_NEW)"
  shows "pi_stack (hash_end pinfo) = pi_stack pinfo \<and> err_has (pi_err (hash_end pinfo))"
  using assms
  by (cases "pi_stack pinfo")
     (auto simp: hash_end_def stack_peek_def oj_set_error_atx_def err_has_def oj_parse_error_class_def)

lemma array_end_illegal_pops:
  assumes "pi_stack pinfo = v # vs" "v_next v \<noteq> NEXT_ARRAY_COMMA" "v_next v \<noteq> NEXT_ARRAY_NEW"
  shows "pi_stack (array_end pinfo) = vs \<and> err_has (pi_err (array_end pinfo))"
  using assms
  by (auto simp: array_end_def stack_pop_def oj_set_error_atx_def err_has_def oj_parse_error_class_def)

text \<open>
  C8, at the input \<open>{]\<close>: \<open>array_end\<close> pops the top frame before it looks at its
  state. The frame opened by \<open>{\<close> is in state \<open>NEXT_HASH_NEW\<close>, where \<open>]\<close> is
  illegal; the error is recorded and the frame is gone from the stack. The claim says
  that the stack is left unchanged; \<open>hash_end\<close> peeks first and does leave it
  unchanged.
\<close>

theorem C8_array_end_pops_before_validating:
  "pi_stack (hash_start (parse_init ''{]'' AutoDec)) \<noteq> [] \<and>
   pi_stack (array_end (hash_start (parse_init ''{]'' AutoDec))) = [] \<and>
   err_has (pi_err (array_end (hash_start (parse_init ''{]'' AutoDec)))) \<and>
   pi_stack (oj_pi_parsex ''{]'' AutoDec) = [] \<and>
   pi_err_calls (oj_pi_parsex ''{]'' AutoDec) =
     [(oj_parse_error_class, ''expected %s, not an array close'', [NEXT_HASH_NEW])]"
  by code_simp

section \<open>A sign with no digits (C9)\<close>

lemma int_loop_non_digit: "\<not> is_digit c \<Longrightarrow> int_loop c r ni z = (c, r, ni, z)"
  by (subst int_loop.simps) simp

lemma add_num_value_top:
  "pi_stack pinfo = [] \<Longrightarrow> add_num_value pinfo ni = emit pinfo (AddNum ni)"
  by (simp add: add_num_value_def stack_peek_def)

lemma bare_sign_parses:
  "\<not> err_has (pi_err (oj_pi_parsex ''+'' opt)) \<and> \<not> err_has (pi_err (oj_pi_parsex ''-'' opt)) \<and>
   parsed_numbers ''+'' opt = [if opt = BigDec then RInum [] else RFixnum 0] \<and>
   parsed_numbers ''-'' opt = [if opt = BigDec then RInum [] else RFixnum 0]"
proof -
  have b: "\<not> err_has (pi_err (oj_pi_parsex ''+'' BigDec)) \<and> \<not> err_has (pi_err (oj_pi_parsex ''-'' BigDec)) \<and>
   parsed_numbers ''+'' BigDec = [RInum []] \<and> parsed_numbers ''-'' BigDec = [RInum []]"
    by code_simp
  have f: "\<not> err_has (pi_err (oj_pi_parsex ''+'' FloatDec)) \<and> \<not> err_has (pi_err (oj_pi_parsex ''-'' FloatDec)) \<and>
   parsed_numbers ''+'' FloatDec = [RFixnum 0] \<and> parsed_numbers ''-'' FloatDec = [RFixnum 0]"
    by code_simp
  have a: "\<not> err_has (pi_err (oj_pi_parsex ''+'' AutoDec)) \<and> \<not> err_has (pi_err (oj_pi_parsex ''-'' AutoDec)) \<and>
   parsed_numbers ''+'' AutoDec = [RFixnum 0] \<and> parsed_numbers ''-'' AutoDec = [RFixnum 0]"
    by code_simp
  show ?thesis using a b f by (cases opt) simp_all
qed

text \<open>
  C9: entered on a sign that is followed by no digit (nor by \<open>I\<close>, \<open>N\<close>, \<open>n\<close>, a
  point or an exponent mark; the end of the input counts), \<open>read_num\<close> records no
  error itself and hands on a number with integer accumulator 0, numerator 0,
  denominator 1 and exponent 0. \<open>oj_num_as_valuex\<close> turns it into the integer 0
  (under the \<open>BigDec\<close> option the number is flagged big and the integer is parsed by
  the runtime from the raw span). The inputs \<open>+\<close> and \<open>-\<close> each parse with no error
  to that one number.
\<close>

theorem C9_bare_sign:
  assumes sign: "c0 = CHR ''+'' \<or> c0 = CHR ''-''"
    and nd: "\<not> is_digit (get_char (pi_rd pinfo))"
    and nx: "get_char (pi_rd pinfo) \<noteq> CHR ''I'' \<and> get_char (pi_rd pinfo) \<noteq> CHR ''N'' \<and>
             get_char (pi_rd pinfo) \<noteq> CHR ''n'' \<and> get_char (pi_rd pinfo) \<noteq> CHR ''.'' \<and>
             get_char (pi_rd pinfo) \<noteq> CHR ''e'' \<and> get_char (pi_rd pinfo) \<noteq> CHR ''E''"
  shows "(\<exists>ni. read_num pinfo c0 =
            add_num_value (pinfo\<lparr> pi_rd := advance (reader_protect (pi_rd pinfo)) \<rparr>) ni \<and>
          ni_i ni = 0 \<and> ni_num ni = 0 \<and> ni_div ni = 1 \<and> ni_exp ni = 0 \<and> ni_dec_cnt ni = 0 \<and>
          \<not> ni_infinity ni \<and> \<not> ni_nan ni \<and> ni_neg ni = (c0 = CHR ''-'') \<and>
          oj_num_as_valuex mem ni =
            (if pi_bigdec_load pinfo = BigDec then RInum (raw_span mem ni) else RFixnum 0) \<and>
          (pi_stack pinfo = [] \<longrightarrow>
             pi_err (read_num pinfo c0) = pi_err pinfo \<and>
             pi_err_calls (read_num pinfo c0) = pi_err_calls pinfo \<and>
             pi_events (read_num pinfo c0) = pi_events pinfo @ [AddNum ni])) \<and>
         \<not> err_has (pi_err (oj_pi_parsex ''+'' opt)) \<and>
         \<not> err_has (pi_err (oj_pi_parsex ''-'' opt)) \<and>
         parsed_numbers ''+'' opt = [if opt = BigDec then RInum [] else RFixnum 0] \<and>
         parsed_numbers ''-'' opt = [if opt = BigDec then RInum [] else RFixnum 0]"
proof -
  define x where "x = get_char (pi_rd pinfo)"
  define p0 where "p0 = pinfo\<lparr> pi_rd := reader_protect (pi_rd pinfo) \<rparr>"
  define r1 where "r1 = advance (reader_protect (pi_rd pinfo))"
  define ni0 where "ni0 = (if c0 = CHR ''-'' then (ni_init p0)\<lparr> ni_neg := True \<rparr> else ni_init p0)"
  define ni1 where "ni1 = ni0\<lparr> ni_dec_cnt := ni_dec_cnt ni0 - 0, ni_len := rd_tail r1 - str_off r1 \<rparr>"
  define ni where "ni = (if pi_bigdec_load pinfo = BigDec then ni1\<lparr> ni_big := 1 \<rparr> else ni1)"
  have gx: "get_char (pi_rd p0) = x"
    by (simp add: p0_def x_def get_char_def reader_protect_def)
  have x: "\<not> is_digit x" "x \<noteq> CHR ''I''" "x \<noteq> CHR ''N''" "x \<noteq> CHR ''n''" "x \<noteq> CHR ''.''"
    "x \<noteq> CHR ''e''" "x \<noteq> CHR ''E''"
    using nd nx by (simp_all add: x_def)
  have dec: "read_decimal x r1 ni0 = (r1, ni1)"
    using x by (simp add: read_decimal_def int_loop_non_digit ni1_def)
  have sg: "(if c0 = CHR ''-'' \<or> c0 = CHR ''+'' then get_char (pi_rd p0) else c0) = x"
    using sign gx by auto
  have p1: "(if c0 = CHR ''-'' \<or> c0 = CHR ''+'' then pi_adv p0 else p0) = pinfo\<lparr> pi_rd := r1 \<rparr>"
    using sign by (auto simp: pi_adv_def p0_def r1_def)
  have rn: "read_num pinfo c0 = add_num_value (pinfo\<lparr> pi_rd := r1 \<rparr>) ni"
    unfolding read_num_def Let_def p0_def [symmetric] sg p1 ni0_def [symmetric]
    using x dec by (simp add: finish_num_def ni_def)
  have f: "ni_i ni = 0" "ni_num ni = 0" "ni_div ni = 1" "ni_exp ni = 0" "ni_dec_cnt ni = 0"
    "\<not> ni_infinity ni" "\<not> ni_nan ni" "ni_neg ni = (c0 = CHR ''-'')"
    "ni_big ni = (if pi_bigdec_load pinfo = BigDec then 1 else 0)"
    by (simp_all add: ni_def ni1_def ni0_def ni_init_def)
  have v: "oj_num_as_valuex mem ni =
      (if pi_bigdec_load pinfo = BigDec then RInum (raw_span mem ni) else RFixnum 0)"
    using f by (simp add: oj_num_as_valuex_def)
  have top: "pi_stack pinfo = [] \<longrightarrow>
             pi_err (read_num pinfo c0) = pi_err pinfo \<and>
             pi_err_calls (read_num pinfo c0) = pi_err_calls pinfo \<and>
             pi_events (read_num pinfo c0) = pi_events pinfo @ [AddNum ni]"
    by (simp add: rn add_num_value_top emit_def)
  have ex: "\<exists>ni. read_num pinfo c0 =
            add_num_value (pinfo\<lparr> pi_rd := advance (reader_protect (pi_rd pinfo)) \<rparr>) ni \<and>
          ni_i ni = 0 \<and> ni_num ni = 0 \<and> ni_div ni = 1 \<and> ni_exp ni = 0 \<and> ni_dec_cnt ni = 0 \<and>
          \<not> ni_infinity ni \<and> \<not> ni_nan ni \<and> ni_neg ni = (c0 = CHR ''-'') \<and>
          oj_num_as_valuex mem ni =
            (if pi_bigdec_load pinfo = BigDec then RInum (raw_span mem ni) else RFixnum 0) \<and>
          (pi_stack pinfo = [] \<longrightarrow>
             pi_err (read_num pinfo c0) = pi_err pinfo \<and>
             pi_err_calls (read_num pinfo c0) = pi_err_calls pinfo \<and>
             pi_events (read_num pinfo c0) = pi_events pinfo @ [AddNum ni])"
    apply (rule exI [of _ ni])
    using rn f(1-8) v top unfolding r1_def by (intro conjI) assumption+
  show ?thesis
    using ex bare_sign_parses [of opt] by (intro conjI) simp_all
qed

theorem C9_bare_sign_witness:
  "\<exists>ni. read_num ((parse_init ''+'' AutoDec)\<lparr> pi_rd := advance (pi_rd (parse_init ''+'' AutoDec)) \<rparr>) (CHR ''+'') =
     add_num_value ((parse_init ''+'' AutoDec)\<lparr> pi_rd := advance (reader_protect
        (advance (pi_rd (parse_init ''+'' AutoDec)))) \<rparr>) ni \<and>
     ni_i ni = 0 \<and> oj_num_as_valuex ''+'' ni = RFixnum 0"
proof -
  define p where "p = (parse_init ''+'' AutoDec)\<lparr> pi_rd := advance (pi_rd (parse_init ''+'' AutoDec)) \<rparr>"
  have nd: "\<not> is_digit (get_char (pi_rd p))" unfolding p_def by code_simp
  have nx: "get_char (pi_rd p) \<noteq> CHR ''I'' \<and> get_char (pi_rd p) \<noteq> CHR ''N'' \<and>
             get_char (pi_rd p) \<noteq> CHR ''n'' \<and> get_char (pi_rd p) \<noteq> CHR ''.'' \<and>
             get_char (pi_rd p) \<noteq> CHR ''e'' \<and> get_char (pi_rd p) \<noteq> CHR ''E''"
    unfolding p_def by code_simp
  have s: "CHR ''+'' = CHR ''+'' \<or> CHR ''+'' = CHR ''-''" by simp
  have b: "pi_bigdec_load p \<noteq> BigDec" by (simp add: p_def parse_init_def)
  have "\<exists>ni. read_num p (CHR ''+'') =
            add_num_value (p\<lparr> pi_rd := advance (reader_protect (pi_rd p)) \<rparr>) ni \<and>
          ni_i ni = 0 \<and> ni_num ni = 0 \<and> ni_div ni = 1 \<and> ni_exp ni = 0 \<and> ni_dec_cnt ni = 0 \<and>
          \<not> ni_infinity ni \<and> \<not> ni_nan ni \<and> ni_neg ni = (CHR ''+'' = CHR ''-'') \<and>
          oj_num_as_valuex ''+'' ni =
            (if pi_bigdec_load p = BigDec then RInum (raw_span ''+'' ni) else RFixnum 0) \<and>
          (pi_stack p = [] \<longrightarrow>
             pi_err (read_num p (CHR ''+'')) = pi_err p \<and>
             pi_err_calls (read_num p (CHR ''+'')) = pi_err_calls p \<and>
             pi_events (read_num p (CHR ''+'')) = pi_events p @ [AddNum ni])"
    using C9_bare_sign [OF s nd nx, of "''+''" AutoDec] by (rule conjunct1)
  then obtain ni where n: "read_num p (CHR ''+'') =
            add_num_value (p\<lparr> pi_rd := advance (reader_protect (pi_rd p)) \<rparr>) ni"
      "ni_i ni = 0"
      "oj_num_as_valuex ''+'' ni =
            (if pi_bigdec_load p = BigDec then RInum (raw_span ''+'' ni) else RFixnum 0)"
    by blast
  show ?thesis
    unfolding p_def [symmetric]
    by (rule exI [of _ ni]) (use n b in \<open>simp add: p_def\<close>)
qed

section \<open>Signed NaN (C10)\<close>

lemma signed_nan_parses:
  "\<not> err_has (pi_err (oj_pi_parsex ''-nan'' opt)) \<and> \<not> err_has (pi_err (oj_pi_parsex ''+NaN'' opt)) \<and>
   parsed_numbers ''-nan'' opt = [RFloatNaN] \<and> parsed_numbers ''+NaN'' opt = [RFloatNaN]"
proof -
  have b: "\<not> err_has (pi_err (oj_pi_parsex ''-nan'' BigDec)) \<and> \<not> err_has (pi_err (oj_pi_parsex ''+NaN'' BigDec)) \<and>
   parsed_numbers ''-nan'' BigDec = [RFloatNaN] \<and> parsed_numbers ''+NaN'' BigDec = [RFloatNaN]"
    by code_simp
  have f: "\<not> err_has (pi_err (oj_pi_parsex ''-nan'' FloatDec)) \<and> \<not> err_has (pi_err (oj_pi_parsex ''+NaN'' FloatDec)) \<and>
   parsed_numbers ''-nan'' FloatDec = [RFloatNaN] \<and> parsed_numbers ''+NaN'' FloatDec = [RFloatNaN]"
    by code_simp
  have a: "\<not> err_has (pi_err (oj_pi_parsex ''-nan'' AutoDec)) \<and> \<not> err_has (pi_err (oj_pi_parsex ''+NaN'' AutoDec)) \<and>
   parsed_numbers ''-nan'' AutoDec = [RFloatNaN] \<and> parsed_numbers ''+NaN'' AutoDec = [RFloatNaN]"
    by code_simp
  show ?thesis using a b f by (cases opt) simp_all
qed

lemma nan_value: "ni_nan ni \<Longrightarrow> \<not> ni_infinity ni \<Longrightarrow> oj_num_as_valuex mem ni = RFloatNaN"
  by (simp add: oj_num_as_valuex_def)

text \<open>
  C10: after a sign, \<open>N\<close> or \<open>n\<close> followed by \<open>a\<close> and \<open>N\<close> or \<open>n\<close> is lexed as
  NaN with no error recorded by \<open>read_num\<close>; the negative flag follows the sign.
  \<open>oj_num_as_valuex\<close> maps every number flagged NaN (and not infinity) to the
  not-a-number value whatever its negative flag. The inputs \<open>-nan\<close> and \<open>+NaN\<close>
  parse with no error.
\<close>

theorem C10_signed_nan:
  assumes sign: "c0 = CHR ''+'' \<or> c0 = CHR ''-''"
    and n1: "get_char (pi_rd pinfo) = CHR ''N'' \<or> get_char (pi_rd pinfo) = CHR ''n''"
    and a: "get_char (advance (pi_rd pinfo)) = CHR ''a''"
    and n2: "get_char (advance (advance (pi_rd pinfo))) = CHR ''N'' \<or>
             get_char (advance (advance (pi_rd pinfo))) = CHR ''n''"
  shows "(\<exists>ni. read_num pinfo c0 =
            add_num_value
              (pinfo\<lparr> pi_rd := advance (advance (advance (reader_protect (pi_rd pinfo)))) \<rparr>) ni \<and>
          ni_nan ni \<and> \<not> ni_infinity ni \<and> ni_neg ni = (c0 = CHR ''-'') \<and>
          oj_num_as_valuex mem ni = RFloatNaN) \<and>
         (\<forall>ni. ni_nan ni \<and> \<not> ni_infinity ni \<longrightarrow> oj_num_as_valuex mem ni = RFloatNaN) \<and>
         \<not> err_has (pi_err (oj_pi_parsex ''-nan'' opt)) \<and>
         \<not> err_has (pi_err (oj_pi_parsex ''+NaN'' opt)) \<and>
         parsed_numbers ''-nan'' opt = [RFloatNaN] \<and>
         parsed_numbers ''+NaN'' opt = [RFloatNaN]"
proof -
  define p0 where "p0 = pinfo\<lparr> pi_rd := reader_protect (pi_rd pinfo) \<rparr>"
  define ni0 where "ni0 = (if c0 = CHR ''-'' then (ni_init p0)\<lparr> ni_neg := True \<rparr> else ni_init p0)"
  define ni1 where "ni1 = ni0\<lparr> ni_nan := True \<rparr>"
  define p3 where "p3 = pi_adv (pi_adv (pi_adv p0))"
  define ni where "ni = (if pi_bigdec_load pinfo = BigDec then ni1\<lparr> ni_big := 1 \<rparr> else ni1)"
  have g: "get_char (r\<lparr> rd_str := s \<rparr>) = get_char r" for r s
    by (simp add: get_char_def)
  have ap: "advance (r\<lparr> rd_str := s \<rparr>) = (advance r)\<lparr> rd_str := s \<rparr>" for r s
    by (simp add: advance_def)
  have g0: "get_char (pi_rd p0) = get_char (pi_rd pinfo)"
    by (simp add: p0_def reader_protect_def g)
  have g1: "get_char (pi_rd (pi_adv p0)) = CHR ''a''"
    using a by (simp add: p0_def pi_adv_def reader_protect_def ap g)
  have g2: "get_char (pi_rd (pi_adv (pi_adv p0))) = get_char (advance (advance (pi_rd pinfo)))"
    by (simp add: p0_def pi_adv_def reader_protect_def ap g)
  have sg: "(if c0 = CHR ''-'' \<or> c0 = CHR ''+'' then get_char (pi_rd p0) else c0) = get_char (pi_rd pinfo)"
    using sign g0 by auto
  have p1: "(if c0 = CHR ''-'' \<or> c0 = CHR ''+'' then pi_adv p0 else p0) = pi_adv p0"
    using sign by auto
  have notI: "get_char (pi_rd pinfo) \<noteq> CHR ''I''" using n1 by auto
  have rn: "read_num pinfo c0 = add_num_value p3 ni"
    unfolding read_num_def Let_def p0_def [symmetric] sg p1 ni0_def [symmetric]
    using notI n1 g1 g2 n2
    by (simp add: finish_num_def ni_def ni1_def p3_def pi_adv_def p0_def)
  have p3: "p3 = pinfo\<lparr> pi_rd := advance (advance (advance (reader_protect (pi_rd pinfo)))) \<rparr>"
    by (simp add: p3_def pi_adv_def p0_def)
  have f: "ni_nan ni" "\<not> ni_infinity ni" "ni_neg ni = (c0 = CHR ''-'')"
    by (simp_all add: ni_def ni1_def ni0_def ni_init_def)
  have v: "oj_num_as_valuex mem ni = RFloatNaN" using f by (simp add: nan_value)
  have ex: "\<exists>ni. read_num pinfo c0 =
            add_num_value
              (pinfo\<lparr> pi_rd := advance (advance (advance (reader_protect (pi_rd pinfo)))) \<rparr>) ni \<and>
          ni_nan ni \<and> \<not> ni_infinity ni \<and> ni_neg ni = (c0 = CHR ''-'') \<and>
          oj_num_as_valuex mem ni = RFloatNaN"
    apply (rule exI [of _ ni])
    using rn [unfolded p3] f v by (intro conjI) assumption+
  have all: "\<forall>ni. ni_nan ni \<and> \<not> ni_infinity ni \<longrightarrow> oj_num_as_valuex mem ni = RFloatNaN"
    by (simp add: nan_value)
  show ?thesis
    using ex all signed_nan_parses [of opt] by (intro conjI) simp_all
qed

theorem C10_signed_nan_witness:
  "\<exists>ni. read_num ((parse_init ''-nan'' AutoDec)\<lparr> pi_rd := advance (pi_rd (parse_init ''-nan'' AutoDec)) \<rparr>)
       (CHR ''-'') =
     add_num_value ((parse_init ''-nan'' AutoDec)\<lparr> pi_rd := advance (advance (advance (reader_protect
        (advance (pi_rd (parse_init ''-nan'' AutoDec)))))) \<rparr>) ni \<and>
     ni_nan ni \<and> ni_neg ni \<and> oj_num_as_valuex ''-nan'' ni = RFloatNaN"
proof -
  define p where "p = (parse_init ''-nan'' AutoDec)\<lparr> pi_rd := advance (pi_rd (parse_init ''-nan'' AutoDec)) \<rparr>"
  have n1: "get_char (pi_rd p) = CHR ''N'' \<or> get_char (pi_rd p) = CHR ''n''"
    unfolding p_def by code_simp
  have a: "get_char (advance (pi_rd p)) = CHR ''a''" unfolding p_def by code_simp
  have n2: "get_char (advance (advance (pi_rd p))) = CHR ''N'' \<or>
             get_char (advance (advance (pi_rd p))) = CHR ''n''"
    unfolding p_def by code_simp
  have s: "CHR ''-'' = CHR ''+'' \<or> CHR ''-'' = CHR ''-''" by simp
  have "\<exists>ni. read_num p (CHR ''-'') =
            add_num_value (p\<lparr> pi_rd := advance (advance (advance (reader_protect (pi_rd p)))) \<rparr>) ni \<and>
          ni_nan ni \<and> \<not> ni_infinity ni \<and> ni_neg ni = (CHR ''-'' = CHR ''-'') \<and>
          oj_num_as_valuex ''-nan'' ni = RFloatNaN"
    using C10_signed_nan [OF s n1 a n2, of "''-nan''" AutoDec] by (rule conjunct1)
  then obtain ni where n: "read_num p (CHR ''-'') =
            add_num_value (p\<lparr> pi_rd := advance (advance (advance (reader_protect (pi_rd p)))) \<rparr>) ni"
      "ni_nan ni" "ni_neg ni" "oj_num_as_valuex ''-nan'' ni = RFloatNaN"
    by auto
  show ?thesis
    unfolding p_def [symmetric]
    by (rule exI [of _ ni]) (use n in \<open>simp add: p_def\<close>)
qed

section \<open>Surrogate pairs (C2)\<close>









section \<open>UTF-8 output (C7)\<close>

























section \<open>The number lexer (C1)\<close>






lemma skip_run_fields [simp]:
  "rd_input (skip_run r n rest) = rd_input r" "rd_str (skip_run r n rest) = rd_str r"
  "rd_tail (skip_run r n rest) = rd_tail r + n + (if rest = [] then 0 else 1)"
  by (simp_all add: skip_run_def)




lemma digits_val_Nil [simp]: "digits_val [] = 0"
  by (simp add: digits_val_def)


lemma tz_Nil [simp]: "tz [] = 0"
  by (simp add: tz_def)



lemma sig_count_Nil [simp]: "sig_count [] = 0"
  by (simp add: sig_count_def)












































text \<open>
  The second half of the claim does not hold of this code either. The integer accumulator is
  tested against \<open>LONG_MAX\<close> after it has wrapped, so \<open>100000000000000000000\<close> (one
  significant digit, twenty trailing zeros) passes both tests with \<open>big\<close> unset and is
  delivered as the wrapped value. And the span kept for a big number starts at the reader's
  position when \<open>read_num\<close> is entered, one character after the start of the
  literal, and runs over the character that ended the digits.
\<close>

lemma overflow_not_flagged:
  "parsed_big ''100000000000000000000'' AutoDec = [0] \<and>
   parsed_numbers ''100000000000000000000'' AutoDec = [RFixnum 7766279631452241920]"
  by code_simp

lemma raw_span_starts_late:
  "parsed_big ''123456789012345'' AutoDec = [1] \<and>
   parsed_spans ''123456789012345'' AutoDec = [''23456789012345''] \<and>
   parsed_spans ''[123456789012345]'' AutoDec = [''23456789012345]'']"
  by code_simp


end
